theory Spec2Isabelle
  imports Main
begin

section \<open>Errors and effects\<close>

text \<open>
  The exceptions of \<^verbatim>\<open>jira_board_to_sql.py\<close> as values.
  \<open>MissingConfiguration name\<close> is the \<^verbatim>\<open>ValueError\<close> of \<^verbatim>\<open>require_env\<close>
  (its message names the variable), \<open>UpstreamError code\<close> is what
  \<^verbatim>\<open>r.raise_for_status()\<close> raises for an HTTP failure status, \<open>DatabaseError\<close> is a
  statement refused by the SQL server, and \<open>ParseError\<close> is the \<^verbatim>\<open>ValueError\<close> of
  \<^verbatim>\<open>datetime.fromisoformat\<close>.
\<close>

datatype error =
    MissingConfiguration string
  | UpstreamError nat
  | DatabaseError
  | ParseError

text \<open>Python's \<^verbatim>\<open>datetime\<close> value: the fields and the UTC offset (seconds) when aware.\<close>

record datetime =
  year :: int
  month :: int
  day :: int
  hour :: int
  minute :: int
  second :: int
  microsecond :: int
  utcoffset :: "int option"

subsection \<open>The JSON documents of the Jira Agile API\<close>

text \<open>
  The script reads the documents with \<^verbatim>\<open>.get\<close>; a field is \<open>None\<close> when the key is
  absent (or, where the script treats both alike, when it is \<^verbatim>\<open>null\<close>). An id may be sent
  as a JSON string or as a JSON number; the script applies \<^verbatim>\<open>str\<close> to it.
\<close>

datatype jid = JString string | JNumber int

record jstatus =
  status_id :: "jid option"
  status_name :: "string option"

record jcolumn =
  column_name :: "string option"
  column_statuses :: "jstatus list"

record jboard_configuration =
  columnConfig_columns :: "jcolumn list"

record jassignee =
  displayName :: "string option"

record jfields =
  summary :: "string option"
  status :: "jstatus option"
  assignee :: "jassignee option"
  duedate :: "string option"
  created :: "string option"
  updated :: "string option"

record jissue =
  issue_key :: "string option"
  issue_fields :: "jfields option"

record jpage =
  page_issues :: "jissue list"
  page_total :: "int option"

text \<open>
  The Jira server as the script sees it: the response to the board configuration request,
  and the response to an issue page request as a function of \<^verbatim>\<open>startAt\<close> and
  \<^verbatim>\<open>maxResults\<close>. \<open>Inl\<close> is a failed request.
\<close>

record jira =
  board_configuration :: "error + jboard_configuration"
  board_issue :: "nat \<Rightarrow> nat \<Rightarrow> error + jpage"

subsection \<open>The destination tables\<close>

text \<open>
  A row of \<^verbatim>\<open>dbo.JiraBoardColumns\<close>; it is also the dictionary that
  \<^verbatim>\<open>get_board_columns\<close> builds for each (column, status) pair.
\<close>

record column_row =
  BoardId :: int
  ColumnName :: "string option"
  StatusId :: string
  StatusName :: "string option"

text \<open>
  A row of \<^verbatim>\<open>dbo.JiraIssuesBoard\<close>, and the parameters \<^verbatim>\<open>upsert_issues\<close> passes for
  one issue. \<open>None\<close> is SQL \<^verbatim>\<open>NULL\<close>.
\<close>

record issue_row =
  iBoardId :: int
  IssueKey :: "string option"
  Summary :: "string option"
  iStatusId :: "string option"
  iStatusName :: "string option"
  iColumnName :: "string option"
  Assignee :: "string option"
  DueDate :: "string option"
  Created :: "datetime option"
  Updated :: "datetime option"

record db =
  JiraBoardColumns :: "column_row list"
  JiraIssuesBoard :: "issue_row list"

text \<open>What the run does to the outside world, in order.\<close>

datatype event =
    HttpGet string "(string \<times> nat) list"
  | DbConnect string
  | DbExecuteColumn column_row
  | DbExecuteIssue issue_row
  | DbCommit
  | DbRollback

type_synonym 'a io = "(error + 'a) \<times> event list"

definition io_bind :: "'a io \<Rightarrow> ('a \<Rightarrow> 'b io) \<Rightarrow> 'b io" where
  "io_bind m f =
     (case m of
        (Inl e, t) \<Rightarrow> (Inl e, t)
      | (Inr a, t) \<Rightarrow> (case f a of (r, t') \<Rightarrow> (r, t @ t')))"

definition io_check :: "error + 'a \<Rightarrow> 'a io" where
  "io_check r = (r, [])"

section \<open>Configuration\<close>

text \<open>
  The module-level globals after \<^verbatim>\<open>load_dotenv()\<close>. \<^verbatim>\<open>BOARD_ID\<close> is the integer that
  \<^verbatim>\<open>int(os.getenv("BOARD_ID", "2"))\<close> produced at import time.
\<close>

record config =
  JIRA_BASE_URL :: string
  JIRA_EMAIL :: "string option"
  JIRA_API_TOKEN :: "string option"
  BOARD_ID :: int
  SQL_SERVER :: "string option"
  SQL_DATABASE :: string
  SQL_AUTH :: string
  SQL_USERNAME :: "string option"
  SQL_PASSWORD :: "string option"

definition rstrip_slash :: "string \<Rightarrow> string" where
  "rstrip_slash s = rev (dropWhile (\<lambda>c. c = CHR ''/'') (rev s))"

definition lower_char :: "char \<Rightarrow> char" where
  "lower_char c =
     (let n = (of_char c :: nat) in if 65 \<le> n \<and> n \<le> 90 then char_of (n + 32) else c)"

definition getenv_default :: "(string \<rightharpoonup> string) \<Rightarrow> string \<Rightarrow> string \<Rightarrow> string" where
  "getenv_default env name d = (case env name of None \<Rightarrow> d | Some v \<Rightarrow> v)"

definition load_config :: "(string \<rightharpoonup> string) \<Rightarrow> int \<Rightarrow> config" where
  "load_config env board_id =
     \<lparr> JIRA_BASE_URL = rstrip_slash (getenv_default env ''JIRA_BASE_URL'' ''''),
       JIRA_EMAIL = env ''JIRA_EMAIL'',
       JIRA_API_TOKEN = env ''JIRA_API_TOKEN'',
       BOARD_ID = board_id,
       SQL_SERVER = env ''SQL_SERVER'',
       SQL_DATABASE = getenv_default env ''SQL_DATABASE'' ''JiraReporting'',
       SQL_AUTH = map lower_char (getenv_default env ''SQL_AUTH'' ''windows''),
       SQL_USERNAME = env ''SQL_USERNAME'',
       SQL_PASSWORD = env ''SQL_PASSWORD'' \<rparr>"

definition require_env :: "string \<Rightarrow> string option \<Rightarrow> error + unit" where
  "require_env name v =
     (if v = None \<or> v = Some [] then Inl (MissingConfiguration name) else Inr ())"

section \<open>Timestamps\<close>

definition replace_Z :: "string \<Rightarrow> string" where
  "replace_Z s = concat (map (\<lambda>c. if c = CHR ''Z'' then ''+00:00'' else [c]) s)"

definition try_except :: "error + 'a \<Rightarrow> (error \<Rightarrow> error + 'a) \<Rightarrow> error + 'a" where
  "try_except body handler = (case body of Inl e \<Rightarrow> handler e | Inr v \<Rightarrow> Inr v)"

text \<open>
  \<^verbatim>\<open>to_dt\<close>. \<^verbatim>\<open>datetime.fromisoformat\<close> belongs to the Python library, so it is a
  parameter: it returns the parsed value or raises (\<open>Inl\<close>). The result of \<open>to_dt\<close> is
  again a sum, so that an exception escaping it would be a value of the model.
\<close>

definition to_dt :: "(string \<Rightarrow> error + datetime) \<Rightarrow> string option \<Rightarrow> error + datetime option" where
  "to_dt fromisoformat s =
     (case s of
        None \<Rightarrow> Inr None
      | Some v \<Rightarrow>
          if v = [] then Inr None
          else try_except
                 (case fromisoformat (replace_Z v) of Inl e \<Rightarrow> Inl e | Inr d \<Rightarrow> Inr (Some d))
                 (\<lambda>e. Inr None))"

section \<open>Jira requests\<close>

text \<open>Python's \<^verbatim>\<open>str\<close> on an integer: the decimal digits, with a minus sign when negative.\<close>

fun str_nat :: "nat \<Rightarrow> string" where
  "str_nat n =
     (if n < 10 then [char_of (48 + n)]
      else str_nat (n div 10) @ [char_of (48 + n mod 10)])"

declare str_nat.simps [simp del]

definition str_int :: "int \<Rightarrow> string" where
  "str_int i = (if i < 0 then CHR ''-'' # str_nat (nat (- i)) else str_nat (nat i))"

text \<open>\<^verbatim>\<open>str(x)\<close> for the value \<^verbatim>\<open>.get("id")\<close> returned: \<^verbatim>\<open>str(None)\<close> is \<^verbatim>\<open>"None"\<close>.\<close>

definition str_id :: "jid option \<Rightarrow> string" where
  "str_id x =
     (case x of
        None \<Rightarrow> ''None''
      | Some (JString s) \<Rightarrow> s
      | Some (JNumber n) \<Rightarrow> str_int n)"

text \<open>How an f-string renders an optional setting.\<close>

definition fmt :: "string option \<Rightarrow> string" where
  "fmt x = (case x of None \<Rightarrow> ''None'' | Some s \<Rightarrow> s)"

text \<open>
  \<^verbatim>\<open>jira_get\<close>: the three settings are checked, then the request is sent; \<open>response\<close> is
  what the server answers to it (\<open>Inl\<close> when \<^verbatim>\<open>raise_for_status\<close> raises).
\<close>

definition jira_get :: "config \<Rightarrow> error + 'a \<Rightarrow> string \<Rightarrow> (string \<times> nat) list \<Rightarrow> 'a io" where
  "jira_get cfg response path params =
     io_bind (io_check (require_env ''JIRA_BASE_URL'' (Some (JIRA_BASE_URL cfg)))) (\<lambda>_.
     io_bind (io_check (require_env ''JIRA_EMAIL'' (JIRA_EMAIL cfg))) (\<lambda>_.
     io_bind (io_check (require_env ''JIRA_API_TOKEN'' (JIRA_API_TOKEN cfg))) (\<lambda>_.
       (response, [HttpGet (JIRA_BASE_URL cfg @ path) params]))))"

definition column_records :: "config \<Rightarrow> jboard_configuration \<Rightarrow> column_row list" where
  "column_records cfg c =
     concat (map (\<lambda>col.
       map (\<lambda>st. \<lparr> BoardId = BOARD_ID cfg,
                   ColumnName = column_name col,
                   StatusId = str_id (status_id st),
                   StatusName = status_name st \<rparr>)
           (column_statuses col))
       (columnConfig_columns c))"

definition get_board_columns :: "config \<Rightarrow> jira \<Rightarrow> column_row list io" where
  "get_board_columns cfg srv =
     io_bind
       (jira_get cfg (board_configuration srv)
          (''/rest/agile/1.0/board/'' @ str_int (BOARD_ID cfg) @ ''/configuration'') [])
       (\<lambda>c. (Inr (column_records cfg c), []))"

definition max_results :: nat where
  "max_results = 50"

definition issue_request :: "config \<Rightarrow> jira \<Rightarrow> nat \<Rightarrow> jpage io" where
  "issue_request cfg srv start_at =
     jira_get cfg (board_issue srv start_at max_results)
       (''/rest/agile/1.0/board/'' @ str_int (BOARD_ID cfg) @ ''/issue'')
       [(''startAt'', start_at), (''maxResults'', max_results)]"

text \<open>
  The request of \<open>issue_request\<close> as it appears among the events once the settings of
  \<^verbatim>\<open>jira_get\<close> are present.
\<close>

definition issue_event :: "config \<Rightarrow> nat \<Rightarrow> event" where
  "issue_event cfg start_at =
     HttpGet (JIRA_BASE_URL cfg @ ''/rest/agile/1.0/board/'' @ str_int (BOARD_ID cfg) @ ''/issue'')
       [(''startAt'', start_at), (''maxResults'', max_results)]"

text \<open>\<^verbatim>\<open>data.get("total", 0)\<close>.\<close>

definition total_or_0 :: "jpage \<Rightarrow> int" where
  "total_or_0 data = (case page_total data of None \<Rightarrow> 0 | Some n \<Rightarrow> n)"

text \<open>
  The \<^verbatim>\<open>while True\<close> loop of \<^verbatim>\<open>get_board_issues\<close>, with the issues accumulated so far,
  the offset and the events so far as its state. The loop has no bound of its own, so the
  function is partial: \<open>None\<close> is a run that never leaves the loop.
\<close>

partial_function (option) fetch_loop ::
  "config \<Rightarrow> jira \<Rightarrow> nat \<Rightarrow> jissue list \<Rightarrow> event list \<Rightarrow> (jissue list io) option" where
  "fetch_loop cfg srv start_at issues tr =
     (case issue_request cfg srv start_at of
        (Inl e, t) \<Rightarrow> Some (Inl e, tr @ t)
      | (Inr data, t) \<Rightarrow>
          (if page_issues data = [] then Some (Inr issues, tr @ t)
           else if total_or_0 data \<le> int (start_at + length (page_issues data))
             then Some (Inr (issues @ page_issues data), tr @ t)
             else fetch_loop cfg srv (start_at + length (page_issues data))
                    (issues @ page_issues data) (tr @ t)))"

declare fetch_loop.simps [code]

definition get_board_issues :: "config \<Rightarrow> jira \<Rightarrow> (jissue list io) option" where
  "get_board_issues cfg srv = fetch_loop cfg srv 0 [] []"

text \<open>
  Notation for the statements about the loop: the issues of the page the server returns
  at an offset; the condition under which the loop goes from the request at offset \<open>s\<close>
  on to a request at offset \<open>s'\<close>; and the condition under which the request at the last
  of the offsets \<open>offs\<close> ends the loop with the result \<open>r\<close>.
\<close>

abbreviation page_at :: "jira \<Rightarrow> nat \<Rightarrow> jissue list" where
  "page_at srv s \<equiv> (case board_issue srv s 50 of Inl e \<Rightarrow> [] | Inr d \<Rightarrow> page_issues d)"

abbreviation continues :: "jira \<Rightarrow> nat \<Rightarrow> nat \<Rightarrow> bool" where
  "continues srv s s' \<equiv>
     (case board_issue srv s 50 of
        Inl e \<Rightarrow> False
      | Inr d \<Rightarrow> page_issues d \<noteq> [] \<and> s' = s + length (page_issues d) \<and>
                 int s' < total_or_0 d)"

abbreviation ends_with :: "jira \<Rightarrow> nat list \<Rightarrow> jissue list \<Rightarrow> error + jissue list \<Rightarrow> bool" where
  "ends_with srv offs acc r \<equiv>
     (case board_issue srv (last offs) 50 of
        Inl e \<Rightarrow> r = Inl e
      | Inr d \<Rightarrow> (page_issues d = [] \<or>
                  total_or_0 d \<le> int (last offs + length (page_issues d))) \<and>
                 r = Inr (acc @ concat (map (page_at srv) offs)))"

section \<open>Writing to SQL Server\<close>

text \<open>
  \<^verbatim>\<open>sql_conn\<close>: the settings it needs are checked here, when the connection is opened;
  the connection string is the event's argument.
\<close>

definition sql_conn :: "config \<Rightarrow> unit io" where
  "sql_conn cfg =
     io_bind (io_check (require_env ''SQL_SERVER'' (SQL_SERVER cfg))) (\<lambda>_.
     io_bind (io_check (require_env ''SQL_DATABASE'' (Some (SQL_DATABASE cfg)))) (\<lambda>_.
       (let base = ''DRIVER={ODBC Driver 18 for SQL Server};''
                   @ ''SERVER='' @ fmt (SQL_SERVER cfg) @ '';''
                   @ ''DATABASE='' @ SQL_DATABASE cfg @ '';''
                   @ ''Encrypt=yes;'' @ ''TrustServerCertificate=yes;''
        in if SQL_AUTH cfg = ''sql''
           then io_bind (io_check (require_env ''SQL_USERNAME'' (SQL_USERNAME cfg))) (\<lambda>_.
                io_bind (io_check (require_env ''SQL_PASSWORD'' (SQL_PASSWORD cfg))) (\<lambda>_.
                  (Inr (), [DbConnect (base @ ''UID='' @ fmt (SQL_USERNAME cfg)
                                        @ '';PWD='' @ fmt (SQL_PASSWORD cfg) @ '';'')])))
           else (Inr (), [DbConnect (base @ ''Trusted_Connection=yes;'')]))))"

text \<open>
  A \<^verbatim>\<open>MERGE\<close> statement with one source row, on a table given as the list of its rows.
  \<open>on\<close> is the \<^verbatim>\<open>ON\<close> condition between the source row and a table row, \<open>upd\<close> the
  \<^verbatim>\<open>UPDATE SET\<close> of the \<^verbatim>\<open>WHEN MATCHED\<close> branch, \<open>ins\<close> the row that the
  \<^verbatim>\<open>WHEN NOT MATCHED\<close> branch inserts (or the error when the server refuses it). The
  rows that satisfy the condition are updated in place; when there is none, the new row
  is added.
\<close>

definition merge_stmt ::
  "('p \<Rightarrow> 'r \<Rightarrow> bool) \<Rightarrow> ('p \<Rightarrow> 'r \<Rightarrow> 'r) \<Rightarrow> ('p \<Rightarrow> error + 'r) \<Rightarrow> 'p \<Rightarrow> 'r list
     \<Rightarrow> error + 'r list" where
  "merge_stmt on upd ins s tbl =
     (if list_ex (on s) tbl
      then Inr (map (\<lambda>t. if on s t then upd s t else t) tbl)
      else (case ins s of Inl e \<Rightarrow> Inl e | Inr r \<Rightarrow> Inr (tbl @ [r])))"

text \<open>The statement of \<^verbatim>\<open>upsert_columns\<close>, keyed by board id and status id.\<close>

definition column_match :: "column_row \<Rightarrow> column_row \<Rightarrow> bool" where
  "column_match c t = (BoardId t = BoardId c \<and> StatusId t = StatusId c)"

definition column_update :: "column_row \<Rightarrow> column_row \<Rightarrow> column_row" where
  "column_update c t = t\<lparr>ColumnName := ColumnName c, StatusName := StatusName c\<rparr>"

definition column_insert :: "column_row \<Rightarrow> error + column_row" where
  "column_insert c =
     Inr \<lparr> BoardId = BoardId c, ColumnName = ColumnName c,
           StatusId = StatusId c, StatusName = StatusName c \<rparr>"

definition merge_column :: "column_row \<Rightarrow> column_row list \<Rightarrow> error + column_row list" where
  "merge_column = merge_stmt column_match column_update column_insert"

fun upsert_columns :: "column_row list \<Rightarrow> column_row list \<Rightarrow> column_row list io" where
  "upsert_columns [] tbl = (Inr tbl, [])"
| "upsert_columns (c # cols) tbl =
     io_bind (merge_column c tbl, [DbExecuteColumn c]) (upsert_columns cols)"

text \<open>
  The statement of \<^verbatim>\<open>upsert_issues\<close>, keyed by board id and issue key. In SQL a
  \<^verbatim>\<open>NULL\<close> key equals nothing, so a row without an issue key matches no row and takes
  the \<^verbatim>\<open>INSERT\<close> branch.
\<close>

definition issue_match :: "issue_row \<Rightarrow> issue_row \<Rightarrow> bool" where
  "issue_match r t =
     (iBoardId t = iBoardId r \<and>
      (case IssueKey r of None \<Rightarrow> False | Some k \<Rightarrow> IssueKey t = Some k))"

definition issue_update :: "issue_row \<Rightarrow> issue_row \<Rightarrow> issue_row" where
  "issue_update r t =
     t\<lparr>Summary := Summary r, iStatusId := iStatusId r, iStatusName := iStatusName r,
       iColumnName := iColumnName r, Assignee := Assignee r, DueDate := DueDate r,
       Created := Created r, Updated := Updated r\<rparr>"

text \<open>
  Modelled from the spec: the declaration of the table \<^verbatim>\<open>dbo.JiraIssuesBoard\<close> is not
  part of the sources. The specification makes (board id, issue key) the identity of a
  row, so the key columns do not accept \<^verbatim>\<open>NULL\<close>: the insert of a row without an
  issue key is refused by the server, which the script sees as a database error. A row
  with a key is inserted with the ten values passed.
\<close>

definition issue_insert :: "issue_row \<Rightarrow> error + issue_row" where
  "issue_insert r =
     (case IssueKey r of
        None \<Rightarrow> Inl DatabaseError
      | Some k \<Rightarrow>
          Inr \<lparr> iBoardId = iBoardId r, IssueKey = Some k, Summary = Summary r,
                iStatusId = iStatusId r, iStatusName = iStatusName r,
                iColumnName = iColumnName r, Assignee = Assignee r, DueDate = DueDate r,
                Created = Created r, Updated = Updated r \<rparr>)"

definition merge_issue :: "issue_row \<Rightarrow> issue_row list \<Rightarrow> error + issue_row list" where
  "merge_issue = merge_stmt issue_match issue_update issue_insert"

text \<open>
  \<^verbatim>\<open>status_to_column = {c["StatusId"]: c["ColumnName"] for c in cols}\<close> of \<^verbatim>\<open>main\<close>,
  and \<^verbatim>\<open>status_to_column.get(status_id)\<close>: the keys are strings, so \<^verbatim>\<open>None\<close> is never a
  key, and a key stored with the value \<^verbatim>\<open>None\<close> reads as \<^verbatim>\<open>None\<close>.
\<close>

definition status_to_column :: "column_row list \<Rightarrow> (string \<rightharpoonup> string option)" where
  "status_to_column cols = fold (\<lambda>c m. m(StatusId c \<mapsto> ColumnName c)) cols Map.empty"

definition dict_get :: "(string \<rightharpoonup> string option) \<Rightarrow> string option \<Rightarrow> string option" where
  "dict_get m k =
     (case k of
        None \<Rightarrow> None
      | Some s \<Rightarrow> (case m s of None \<Rightarrow> None | Some v \<Rightarrow> v))"

text \<open>The body of the loop of \<^verbatim>\<open>upsert_issues\<close> up to \<^verbatim>\<open>cur.execute\<close>: the row of one issue.\<close>

definition issue_params ::
  "(string \<Rightarrow> error + datetime) \<Rightarrow> config \<Rightarrow> (string \<rightharpoonup> string option) \<Rightarrow> jissue
     \<Rightarrow> error + issue_row" where
  "issue_params fromisoformat cfg s2c it =
     (let f = (case issue_fields it of
                 None \<Rightarrow> \<lparr> summary = None, status = None, assignee = None,
                            duedate = None, created = None, updated = None \<rparr>
               | Some x \<Rightarrow> x);
          st = (case status f of
                  None \<Rightarrow> \<lparr> status_id = None, status_name = None \<rparr>
                | Some x \<Rightarrow> x);
          sid = (case status_id st of None \<Rightarrow> None | Some i \<Rightarrow> Some (str_id (Some i)));
          who = (case assignee f of None \<Rightarrow> None | Some a \<Rightarrow> displayName a)
      in case to_dt fromisoformat (created f) of
           Inl e \<Rightarrow> Inl e
         | Inr c \<Rightarrow>
             (case to_dt fromisoformat (updated f) of
                Inl e \<Rightarrow> Inl e
              | Inr u \<Rightarrow>
                  Inr \<lparr> iBoardId = BOARD_ID cfg, IssueKey = issue_key it,
                        Summary = summary f, iStatusId = sid,
                        iStatusName = status_name st, iColumnName = dict_get s2c sid,
                        Assignee = who, DueDate = duedate f,
                        Created = c, Updated = u \<rparr>))"

fun upsert_issues ::
  "(string \<Rightarrow> error + datetime) \<Rightarrow> config \<Rightarrow> jissue list \<Rightarrow> (string \<rightharpoonup> string option)
     \<Rightarrow> issue_row list \<Rightarrow> issue_row list io" where
  "upsert_issues fromisoformat cfg [] s2c tbl = (Inr tbl, [])"
| "upsert_issues fromisoformat cfg (it # issues) s2c tbl =
     io_bind (io_check (issue_params fromisoformat cfg s2c it)) (\<lambda>r.
     io_bind (merge_issue r tbl, [DbExecuteIssue r])
       (upsert_issues fromisoformat cfg issues s2c))"

section \<open>The run\<close>

text \<open>The four checks at the head of \<^verbatim>\<open>main\<close>.\<close>

definition main_check :: "config \<Rightarrow> error + unit" where
  "main_check cfg =
     (case require_env ''JIRA_BASE_URL'' (Some (JIRA_BASE_URL cfg)) of
        Inl e \<Rightarrow> Inl e
      | Inr _ \<Rightarrow>
     (case require_env ''JIRA_EMAIL'' (JIRA_EMAIL cfg) of
        Inl e \<Rightarrow> Inl e
      | Inr _ \<Rightarrow>
     (case require_env ''JIRA_API_TOKEN'' (JIRA_API_TOKEN cfg) of
        Inl e \<Rightarrow> Inl e
      | Inr _ \<Rightarrow> require_env ''SQL_SERVER'' (SQL_SERVER cfg))))"

text \<open>
  The \<^verbatim>\<open>with sql_conn() as conn\<close> block of \<^verbatim>\<open>main\<close>. The connection is opened first
  (an error there leaves the block unentered); both upserts run on the connection's
  transaction and \<^verbatim>\<open>conn.commit()\<close> makes them the tables' new state. An exception inside
  the block leaves it through the connection's exit, which rolls the transaction back:
  the tables stay as they were.
\<close>

definition main_write ::
  "(string \<Rightarrow> error + datetime) \<Rightarrow> config \<Rightarrow> column_row list \<Rightarrow> jissue list \<Rightarrow> db
     \<Rightarrow> (error + unit) \<times> event list \<times> db" where
  "main_write fromisoformat cfg cols issues d =
     (case sql_conn cfg of
        (Inl e, t) \<Rightarrow> (Inl e, t, d)
      | (Inr _, t) \<Rightarrow>
          (case io_bind (upsert_columns cols (JiraBoardColumns d)) (\<lambda>ct.
                io_bind (upsert_issues fromisoformat cfg issues (status_to_column cols)
                           (JiraIssuesBoard d)) (\<lambda>it.
                  (Inr \<lparr> JiraBoardColumns = ct, JiraIssuesBoard = it \<rparr>, [DbCommit]))) of
             (Inl e, t') \<Rightarrow> (Inl e, t @ t' @ [DbRollback], d)
           | (Inr d', t') \<Rightarrow> (Inr (), t @ t', d')))"

text \<open>
  \<^verbatim>\<open>main\<close>: the result (the number of issues loaded, or the error that ended the run),
  the events in order, and the tables after the run. \<open>None\<close> is a run whose issue fetch
  never ends. The progress messages printed are left out.
\<close>

definition main ::
  "(string \<Rightarrow> error + datetime) \<Rightarrow> config \<Rightarrow> jira \<Rightarrow> db
     \<Rightarrow> ((error + nat) \<times> event list \<times> db) option" where
  "main fromisoformat cfg srv d =
     (case main_check cfg of
        Inl e \<Rightarrow> Some (Inl e, [], d)
      | Inr _ \<Rightarrow>
     (case get_board_columns cfg srv of
        (Inl e, t1) \<Rightarrow> Some (Inl e, t1, d)
      | (Inr cols, t1) \<Rightarrow>
     (case get_board_issues cfg srv of
        None \<Rightarrow> None
      | Some (Inl e, t2) \<Rightarrow> Some (Inl e, t1 @ t2, d)
      | Some (Inr issues, t2) \<Rightarrow>
     (case main_write fromisoformat cfg cols issues d of
        (Inl e, t3, d') \<Rightarrow> Some (Inl e, t1 @ t2 @ t3, d')
      | (Inr _, t3, d') \<Rightarrow> Some (Inr (length issues), t1 @ t2 @ t3, d')))))"

section \<open>Notions for the statements about the tables\<close>

text \<open>
  The table after a sequence of \<^verbatim>\<open>MERGE\<close> statements, one per source row in order,
  stopping at the first statement the server refuses.
\<close>

fun merge_all ::
  "('p \<Rightarrow> 'r \<Rightarrow> bool) \<Rightarrow> ('p \<Rightarrow> 'r \<Rightarrow> 'r) \<Rightarrow> ('p \<Rightarrow> error + 'r) \<Rightarrow> 'p list \<Rightarrow> 'r list
     \<Rightarrow> error + 'r list" where
  "merge_all on upd ins [] tbl = Inr tbl"
| "merge_all on upd ins (s # ss) tbl =
     (case merge_stmt on upd ins s tbl of
        Inl e \<Rightarrow> Inl e
      | Inr tbl' \<Rightarrow> merge_all on upd ins ss tbl')"

text \<open>What a sequence of source rows does to one table row that stays in the table.\<close>

definition update_all :: "('p \<Rightarrow> 'r \<Rightarrow> bool) \<Rightarrow> ('p \<Rightarrow> 'r \<Rightarrow> 'r) \<Rightarrow> 'p list \<Rightarrow> 'r \<Rightarrow> 'r" where
  "update_all on upd ss t = fold (\<lambda>s t. if on s t then upd s t else t) ss t"

section \<open>Sample inputs\<close>

text \<open>Concrete inputs on which the theorems below are instantiated.\<close>

definition sample_instant :: datetime where
  "sample_instant =
     \<lparr> year = 2026, month = 2, day = 7, hour = 10, minute = 22, second = 33,
       microsecond = 0, utcoffset = Some 0 \<rparr>"

text \<open>A parser that accepts one timestamp and rejects every other string.\<close>

definition sample_fromisoformat :: "string \<Rightarrow> error + datetime" where
  "sample_fromisoformat s =
     (if s = ''2026-02-07T10:22:33+00:00'' then Inr sample_instant else Inl ParseError)"

text \<open>An environment with Windows authentication, and the globals loaded from it.\<close>

definition sample_env :: "string \<rightharpoonup> string" where
  "sample_env =
     [''JIRA_BASE_URL'' \<mapsto> ''https://jira.example/'',
      ''JIRA_EMAIL'' \<mapsto> ''ops@example.org'',
      ''JIRA_API_TOKEN'' \<mapsto> ''secret'',
      ''SQL_SERVER'' \<mapsto> ''localhost'']"

definition sample_config :: config where
  "sample_config = load_config sample_env 2"

text \<open>A board of 120 issues, served in pages of the size requested.\<close>

definition sample_issue :: "nat \<Rightarrow> jissue" where
  "sample_issue n =
     \<lparr> issue_key = Some (''PRJ-'' @ str_nat n),
       issue_fields = Some
         \<lparr> summary = Some ''Fix the build'',
           status = Some \<lparr> status_id = Some (JString (if even n then ''3'' else ''99'')),
                           status_name = Some ''Closed'' \<rparr>,
           assignee = None,
           duedate = None,
           created = Some ''2026-02-07T10:22:33Z'',
           updated = Some ''yesterday'' \<rparr> \<rparr>"

definition sample_issues :: "jissue list" where
  "sample_issues = map sample_issue [0..<120]"

definition sample_board :: jboard_configuration where
  "sample_board =
     \<lparr> columnConfig_columns =
         [\<lparr> column_name = Some ''To Do'',
            column_statuses = [\<lparr> status_id = Some (JNumber 1), status_name = Some ''Open'' \<rparr>] \<rparr>,
          \<lparr> column_name = Some ''Done'',
            column_statuses = [\<lparr> status_id = Some (JNumber 3), status_name = Some ''Closed'' \<rparr>] \<rparr>] \<rparr>"

definition sample_jira :: jira where
  "sample_jira =
     \<lparr> board_configuration = Inr sample_board,
       board_issue = (\<lambda>s m. Inr \<lparr> page_issues = take m (drop s sample_issues),
                                   page_total = Some 120 \<rparr>) \<rparr>"

text \<open>A server that reports 120 issues and returns 30 of them, then nothing.\<close>

definition short_jira :: jira where
  "short_jira =
     \<lparr> board_configuration = Inr sample_board,
       board_issue = (\<lambda>s m. Inr \<lparr> page_issues = (if s = 0 then take 30 sample_issues else []),
                                   page_total = Some 120 \<rparr>) \<rparr>"

text \<open>The board of 120 issues behind a server that sends no \<^verbatim>\<open>total\<close>.\<close>

definition untotalled_jira :: jira where
  "untotalled_jira =
     \<lparr> board_configuration = Inr sample_board,
       board_issue = (\<lambda>s m. Inr \<lparr> page_issues = take m (drop s sample_issues),
                                   page_total = None \<rparr>) \<rparr>"

text \<open>A board without issues.\<close>

definition empty_jira :: jira where
  "empty_jira =
     \<lparr> board_configuration = Inr sample_board,
       board_issue = (\<lambda>s m. Inr \<lparr> page_issues = [], page_total = Some 0 \<rparr>) \<rparr>"

text \<open>
  A board of two issues, and tables left by an earlier run: one column row with an older
  column name and one issue row with an older summary.
\<close>

definition tiny_jira :: jira where
  "tiny_jira =
     \<lparr> board_configuration = Inr sample_board,
       board_issue = (\<lambda>s m. Inr \<lparr> page_issues = take m (drop s [sample_issue 0, sample_issue 1]),
                                   page_total = Some 2 \<rparr>) \<rparr>"

definition sample_db :: db where
  "sample_db =
     \<lparr> JiraBoardColumns =
         [\<lparr> BoardId = 2, ColumnName = Some ''Backlog'', StatusId = ''1'',
            StatusName = Some ''New'' \<rparr>],
       JiraIssuesBoard =
         [\<lparr> iBoardId = 2, IssueKey = Some ''PRJ-1'', Summary = Some ''Old title'',
            iStatusId = Some ''1'', iStatusName = Some ''New'', iColumnName = Some ''Backlog'',
            Assignee = Some ''Kim'', DueDate = None, Created = None, Updated = None \<rparr>] \<rparr>"

text \<open>The events of the run on the board of two issues, and the tables it leaves.\<close>

definition tiny_trace :: "event list" where
  "tiny_trace =
     [HttpGet ''https://jira.example/rest/agile/1.0/board/2/configuration'' [],
      HttpGet ''https://jira.example/rest/agile/1.0/board/2/issue''
        [(''startAt'', 0), (''maxResults'', 50)],
      DbConnect (''DRIVER={ODBC Driver 18 for SQL Server};SERVER=localhost;''
                 @ ''DATABASE=JiraReporting;Encrypt=yes;TrustServerCertificate=yes;''
                 @ ''Trusted_Connection=yes;''),
      DbExecuteColumn
        \<lparr> BoardId = 2, ColumnName = Some ''To Do'', StatusId = ''1'',
          StatusName = Some ''Open'' \<rparr>,
      DbExecuteColumn
        \<lparr> BoardId = 2, ColumnName = Some ''Done'', StatusId = ''3'',
          StatusName = Some ''Closed'' \<rparr>,
      DbExecuteIssue
        \<lparr> iBoardId = 2, IssueKey = Some ''PRJ-0'', Summary = Some ''Fix the build'',
          iStatusId = Some ''3'', iStatusName = Some ''Closed'', iColumnName = Some ''Done'',
          Assignee = None, DueDate = None, Created = Some sample_instant, Updated = None \<rparr>,
      DbExecuteIssue
        \<lparr> iBoardId = 2, IssueKey = Some ''PRJ-1'', Summary = Some ''Fix the build'',
          iStatusId = Some ''99'', iStatusName = Some ''Closed'', iColumnName = None,
          Assignee = None, DueDate = None, Created = Some sample_instant, Updated = None \<rparr>,
      DbCommit]"

definition tiny_db :: db where
  "tiny_db =
     \<lparr> JiraBoardColumns =
         [\<lparr> BoardId = 2, ColumnName = Some ''To Do'', StatusId = ''1'',
            StatusName = Some ''Open'' \<rparr>,
          \<lparr> BoardId = 2, ColumnName = Some ''Done'', StatusId = ''3'',
            StatusName = Some ''Closed'' \<rparr>],
       JiraIssuesBoard =
         [\<lparr> iBoardId = 2, IssueKey = Some ''PRJ-1'', Summary = Some ''Fix the build'',
            iStatusId = Some ''99'', iStatusName = Some ''Closed'', iColumnName = None,
            Assignee = None, DueDate = None, Created = Some sample_instant, Updated = None \<rparr>,
          \<lparr> iBoardId = 2, IssueKey = Some ''PRJ-0'', Summary = Some ''Fix the build'',
            iStatusId = Some ''3'', iStatusName = Some ''Closed'', iColumnName = Some ''Done'',
            Assignee = None, DueDate = None, Created = Some sample_instant, Updated = None \<rparr>] \<rparr>"

text \<open>Changed values for a status and for an issue that the tables above hold.\<close>

definition changed_column :: column_row where
  "changed_column =
     \<lparr> BoardId = 2, ColumnName = Some ''In Review'', StatusId = ''3'',
       StatusName = Some ''Resolved'' \<rparr>"

definition changed_issue :: issue_row where
  "changed_issue =
     \<lparr> iBoardId = 2, IssueKey = Some ''PRJ-0'', Summary = Some ''Fix the nightly build'',
       iStatusId = Some ''1'', iStatusName = Some ''Open'', iColumnName = Some ''To Do'',
       Assignee = Some ''Lee'', DueDate = Some ''2026-03-01'',
       Created = Some sample_instant, Updated = Some sample_instant \<rparr>"

text \<open>The issue \<^verbatim>\<open>PRJ-0\<close> as Jira sends it once it carries the changed values.\<close>

definition renamed_issue :: jissue where
  "renamed_issue =
     \<lparr> issue_key = Some ''PRJ-0'',
       issue_fields = Some
         \<lparr> summary = Some ''Fix the nightly build'',
           status = Some \<lparr> status_id = Some (JNumber 1), status_name = Some ''Open'' \<rparr>,
           assignee = Some \<lparr> displayName = Some ''Lee'' \<rparr>,
           duedate = Some ''2026-03-01'',
           created = Some ''2026-02-07T10:22:33Z'',
           updated = Some ''2026-02-07T10:22:33Z'' \<rparr> \<rparr>"

text \<open>A board configuration that lists the status 3 under two columns.\<close>

definition split_board :: jboard_configuration where
  "split_board =
     \<lparr> columnConfig_columns =
         [\<lparr> column_name = Some ''Doing'',
            column_statuses = [\<lparr> status_id = Some (JString ''3''), status_name = Some ''Closed'' \<rparr>] \<rparr>,
          \<lparr> column_name = Some ''Done'',
            column_statuses = [\<lparr> status_id = Some (JNumber 3), status_name = Some ''Closed'' \<rparr>] \<rparr>] \<rparr>"

text \<open>
  An environment that selects SQL authentication and sets no \<^verbatim>\<open>SQL_USERNAME\<close>, and the
  globals loaded from it.
\<close>

definition sql_auth_env :: "string \<rightharpoonup> string" where
  "sql_auth_env =
     [''JIRA_BASE_URL'' \<mapsto> ''https://jira.example/'',
      ''JIRA_EMAIL'' \<mapsto> ''ops@example.org'',
      ''JIRA_API_TOKEN'' \<mapsto> ''secret'',
      ''SQL_SERVER'' \<mapsto> ''localhost'',
      ''SQL_AUTH'' \<mapsto> ''SQL'',
      ''SQL_PASSWORD'' \<mapsto> ''hunter2'']"

definition sql_auth_config :: config where
  "sql_auth_config = load_config sql_auth_env 2"

section \<open>Lenient timestamp parsing\<close>

lemma replace_Z_append: "replace_Z (a @ b) = replace_Z a @ replace_Z b"
  by (simp add: replace_Z_def)

lemma replace_Z_no_Z: "CHR ''Z'' \<notin> set b \<Longrightarrow> replace_Z b = b"
  by (induction b) (auto simp: replace_Z_def)

lemma replace_Z_result_no_Z: "CHR ''Z'' \<notin> set (replace_Z s)"
  by (induction s) (auto simp: replace_Z_def)

lemma replace_Z_idem: "replace_Z (replace_Z s) = replace_Z s"
  by (rule replace_Z_no_Z [OF replace_Z_result_no_Z])

lemma replace_Z_Nil_iff: "replace_Z s = [] \<longleftrightarrow> s = []"
  by (cases s) (auto simp: replace_Z_def)

lemma to_dt_replace_Z: "to_dt p (Some s) = to_dt p (Some (replace_Z s))"
  by (simp add: to_dt_def replace_Z_idem replace_Z_Nil_iff)

lemma to_dt_total: "\<exists>r. to_dt p x = Inr r"
  by (auto simp: to_dt_def try_except_def split: option.splits sum.splits)

lemma to_dt_failure: "p (replace_Z s) = Inl e \<Longrightarrow> to_dt p (Some s) = Inr None"
  by (simp add: to_dt_def try_except_def)

lemma issue_params_total: "\<exists>row. issue_params p cfg m it = Inr row"
proof -
  let ?f = "case issue_fields it of
              None \<Rightarrow> \<lparr> summary = None, status = None, assignee = None,
                         duedate = None, created = None, updated = None \<rparr>
            | Some x \<Rightarrow> x"
  obtain c where c: "to_dt p (created ?f) = Inr c"
    using to_dt_total by blast
  obtain u where u: "to_dt p (updated ?f) = Inr u"
    using to_dt_total by blast
  show ?thesis
    unfolding issue_params_def Let_def by (simp only: c u sum.case) blast
qed

text \<open>
  C8. Whatever the library parser does, \<open>to_dt\<close> returns and never raises: an absent
  value and the empty string give null, and so does every string the parser rejects
  (after the replacement of \<open>Z\<close>). The row of an issue is therefore always built: no
  timestamp field can abort the run.
\<close>

theorem to_dt_lenient:
  "to_dt p None = Inr None \<and> to_dt p (Some []) = Inr None \<and>
   (\<forall>s e. p (replace_Z s) = Inl e \<longrightarrow> to_dt p (Some s) = Inr None) \<and>
   (\<forall>x. \<exists>r. to_dt p x = Inr r) \<and>
   (\<forall>cfg m it. \<exists>row. issue_params p cfg m it = Inr row)"
  using to_dt_total [of p] to_dt_failure [of p] issue_params_total [of p]
  by (simp add: to_dt_def)

theorem to_dt_lenient_witness:
  "sample_fromisoformat (replace_Z ''07/02/2026 10:22Z'') = Inl ParseError \<and>
   to_dt sample_fromisoformat (Some ''07/02/2026 10:22Z'') = Inr None"
proof -
  have h: "sample_fromisoformat (replace_Z ''07/02/2026 10:22Z'') = Inl ParseError"
    by (simp add: sample_fromisoformat_def replace_Z_def)
  with to_dt_lenient [of sample_fromisoformat] show ?thesis
    by blast
qed

text \<open>
  C9. A timestamp that ends in \<open>Z\<close> (and has no other \<open>Z\<close>, as in every ISO-8601
  timestamp) is parsed to the same result as the string with \<open>+00:00\<close> in place of the
  \<open>Z\<close>, and that result is what the library parser makes of the \<open>+00:00\<close> form.
\<close>

theorem to_dt_Z_suffix:
  assumes "CHR ''Z'' \<notin> set b"
  shows "to_dt p (Some (b @ ''Z'')) = to_dt p (Some (b @ ''+00:00'')) \<and>
         to_dt p (Some (b @ ''Z'')) =
           (case p (b @ ''+00:00'') of Inl e \<Rightarrow> Inr None | Inr d \<Rightarrow> Inr (Some d))"
proof -
  have r: "replace_Z (b @ ''Z'') = b @ ''+00:00''"
    using assms by (simp add: replace_Z_append replace_Z_no_Z) (simp add: replace_Z_def)
  have "to_dt p (Some (b @ ''Z'')) = to_dt p (Some (replace_Z (b @ ''Z'')))"
    by (rule to_dt_replace_Z)
  moreover have "to_dt p (Some (b @ ''Z'')) =
           (case p (b @ ''+00:00'') of Inl e \<Rightarrow> Inr None | Inr d \<Rightarrow> Inr (Some d))"
    by (simp add: to_dt_def try_except_def r split: sum.splits)
  ultimately show ?thesis by (simp add: r)
qed

theorem to_dt_Z_suffix_witness:
  "CHR ''Z'' \<notin> set ''2026-02-07T10:22:33'' \<and>
   to_dt sample_fromisoformat (Some ''2026-02-07T10:22:33Z'') = Inr (Some sample_instant) \<and>
   to_dt sample_fromisoformat (Some ''2026-02-07T10:22:33+00:00'') = Inr (Some sample_instant)"
  using to_dt_Z_suffix [of "''2026-02-07T10:22:33''" sample_fromisoformat]
  by (auto simp: sample_fromisoformat_def)

section \<open>The issue fetch\<close>

lemma main_check_Inr:
  "main_check cfg = Inr u \<Longrightarrow>
     require_env ''JIRA_BASE_URL'' (Some (JIRA_BASE_URL cfg)) = Inr () \<and>
     require_env ''JIRA_EMAIL'' (JIRA_EMAIL cfg) = Inr () \<and>
     require_env ''JIRA_API_TOKEN'' (JIRA_API_TOKEN cfg) = Inr () \<and>
     require_env ''SQL_SERVER'' (SQL_SERVER cfg) = Inr ()"
  by (auto simp: main_check_def split: sum.splits)

lemma jira_get_ok:
  "main_check cfg = Inr u \<Longrightarrow>
     jira_get cfg response path params = (response, [HttpGet (JIRA_BASE_URL cfg @ path) params])"
  by (drule main_check_Inr) (simp add: jira_get_def io_bind_def io_check_def)

lemma issue_request_ok:
  "main_check cfg = Inr u \<Longrightarrow>
     issue_request cfg srv s = (board_issue srv s 50, [issue_event cfg s])"
  by (simp add: issue_request_def issue_event_def jira_get_ok max_results_def)

lemma fetch_loop_error:
  "main_check cfg = Inr u \<Longrightarrow> board_issue srv s 50 = Inl e \<Longrightarrow>
     fetch_loop cfg srv s acc tr = Some (Inl e, tr @ [issue_event cfg s])"
  by (subst fetch_loop.simps) (simp add: issue_request_ok)

lemma fetch_loop_empty:
  "main_check cfg = Inr u \<Longrightarrow> board_issue srv s 50 = Inr data \<Longrightarrow> page_issues data = [] \<Longrightarrow>
     fetch_loop cfg srv s acc tr = Some (Inr acc, tr @ [issue_event cfg s])"
  by (subst fetch_loop.simps) (simp add: issue_request_ok)

lemma fetch_loop_reached:
  "main_check cfg = Inr u \<Longrightarrow> board_issue srv s 50 = Inr data \<Longrightarrow>
   total_or_0 data \<le> int (s + length (page_issues data)) \<Longrightarrow>
     fetch_loop cfg srv s acc tr = Some (Inr (acc @ page_issues data), tr @ [issue_event cfg s])"
  by (subst fetch_loop.simps) (simp add: issue_request_ok)

lemma fetch_loop_continue:
  "main_check cfg = Inr u \<Longrightarrow> board_issue srv s 50 = Inr data \<Longrightarrow> page_issues data \<noteq> [] \<Longrightarrow>
   int (s + length (page_issues data)) < total_or_0 data \<Longrightarrow>
     fetch_loop cfg srv s acc tr =
       fetch_loop cfg srv (s + length (page_issues data)) (acc @ page_issues data)
         (tr @ [issue_event cfg s])"
  by (subst fetch_loop.simps) (simp add: issue_request_ok)

lemma fetch_loop_trace:
  assumes run: "fetch_loop cfg srv s acc tr = Some y" and cfg: "main_check cfg = Inr u"
  shows "\<exists>offs. offs \<noteq> [] \<and> hd offs = s \<and> snd y = tr @ map (issue_event cfg) offs \<and>
           successively (continues srv) offs \<and> ends_with srv offs acc (fst y)"
proof -
  let ?P = "\<lambda>cfg srv s acc tr y. main_check cfg = Inr u \<longrightarrow>
              (\<exists>offs. offs \<noteq> [] \<and> hd offs = s \<and> snd y = tr @ map (issue_event cfg) offs \<and>
                 successively (continues srv) offs \<and> ends_with srv offs acc (fst y))"
  have "?P cfg srv s acc tr y"
  proof (rule fetch_loop.raw_induct [where P = ?P, OF _ run])
    fix loop :: "config \<Rightarrow> jira \<Rightarrow> nat \<Rightarrow> jissue list \<Rightarrow> event list \<Rightarrow> (jissue list io) option"
    fix cfg srv s acc tr y
    assume IH: "\<And>c v s a t y. loop c v s a t = Some y \<Longrightarrow> ?P c v s a t y"
    assume body: "(case issue_request cfg srv s of
        (Inl e, t) \<Rightarrow> Some (Inl e, tr @ t)
      | (Inr data, t) \<Rightarrow>
          (if page_issues data = [] then Some (Inr acc, tr @ t)
           else if total_or_0 data \<le> int (s + length (page_issues data))
             then Some (Inr (acc @ page_issues data), tr @ t)
             else loop cfg srv (s + length (page_issues data))
                    (acc @ page_issues data) (tr @ t))) = Some y"
    show "?P cfg srv s acc tr y"
    proof
      assume c: "main_check cfg = Inr u"
      note ok = issue_request_ok [OF c, of srv s]
      show "\<exists>offs. offs \<noteq> [] \<and> hd offs = s \<and> snd y = tr @ map (issue_event cfg) offs \<and>
                 successively (continues srv) offs \<and> ends_with srv offs acc (fst y)"
      proof (cases "board_issue srv s 50")
        case (Inl e)
        with body have "y = (Inl e, tr @ [issue_event cfg s])" by (simp add: ok)
        with Inl show ?thesis by (intro exI [of _ "[s]"]) simp
      next
        case (Inr d)
        show ?thesis
        proof (cases "page_issues d = [] \<or> total_or_0 d \<le> int (s + length (page_issues d))")
          case True
          with body Inr have "y = (Inr (acc @ page_issues d), tr @ [issue_event cfg s])"
            by (auto simp: ok split: if_splits)
          with Inr True show ?thesis by (intro exI [of _ "[s]"]) auto
        next
          case False
          with body Inr have "loop cfg srv (s + length (page_issues d)) (acc @ page_issues d)
                               (tr @ [issue_event cfg s]) = Some y"
            by (auto simp: ok split: if_splits)
          from IH [OF this] c obtain offs where
            o: "offs \<noteq> []" "hd offs = s + length (page_issues d)"
               "snd y = (tr @ [issue_event cfg s]) @ map (issue_event cfg) offs"
               "successively (continues srv) offs"
               "ends_with srv offs (acc @ page_issues d) (fst y)"
            by blast
          have "successively (continues srv) (s # offs)"
            using o(1,2,4) False Inr by (simp add: successively_Cons)
          moreover have "ends_with srv (s # offs) acc (fst y)"
            using o(1,5) Inr by (simp split: sum.splits)
          ultimately show ?thesis
            using o(1,3) by (intro exI [of _ "s # offs"]) simp
        qed
      qed
    qed
  qed
  with cfg show ?thesis by blast
qed

lemma fetch_loop_consistent:
  assumes cfg: "main_check cfg = Inr u"
    and src: "\<forall>s\<le>length all. \<exists>d n. board_issue srv s 50 = Inr d \<and>
                page_total d = Some (int (length all)) \<and>
                page_issues d = take n (drop s all) \<and> (s < length all \<longrightarrow> 0 < n)"
  shows "s \<le> length all \<Longrightarrow> \<exists>tr'. fetch_loop cfg srv s (take s all) tr = Some (Inr all, tr')"
proof (induction "length all - s" arbitrary: s tr rule: less_induct)
  case less
  from src less.prems obtain d n where
    d: "board_issue srv s 50 = Inr d" "page_total d = Some (int (length all))"
       "page_issues d = take n (drop s all)" "s < length all \<longrightarrow> 0 < n"
    by blast
  show ?case
  proof (cases "s = length all")
    case True
    with d(3) have "page_issues d = []" by simp
    from fetch_loop_empty [OF cfg d(1) this, of "take s all" tr] True show ?thesis by simp
  next
    case False
    with less.prems have lt: "s < length all" by simp
    with d(4) have n: "0 < n" by simp
    let ?k = "length (page_issues d)"
    have k: "?k = min n (length all - s)" by (simp add: d(3) min.commute)
    have k0: "0 < ?k" using n lt k by simp
    have kle: "s + ?k \<le> length all" using k lt by simp
    have "take ?k (drop s all) = page_issues d"
      by (simp add: d(3) min_def)
    then have acc: "take s all @ page_issues d = take (s + ?k) all"
      by (simp only: take_add)
    have tot: "total_or_0 d = int (length all)" by (simp add: total_or_0_def d(2))
    show ?thesis
    proof (cases "s + ?k = length all")
      case True
      then have "total_or_0 d \<le> int (s + ?k)" by (simp add: tot)
      from fetch_loop_reached [OF cfg d(1) this, of "take s all" tr] acc True
      show ?thesis by simp
    next
      case False
      with kle have "int (s + ?k) < total_or_0 d" by (simp add: tot)
      moreover from k0 have "page_issues d \<noteq> []" by auto
      ultimately have "fetch_loop cfg srv s (take s all) tr =
          fetch_loop cfg srv (s + ?k) (take (s + ?k) all) (tr @ [issue_event cfg s])"
        using fetch_loop_continue [OF cfg d(1), of "take s all" tr] acc by simp
      moreover have "length all - (s + ?k) < length all - s" using k0 lt by linarith
      ultimately show ?thesis using less.hyps [of "s + ?k"] kle by simp
    qed
  qed
qed

lemma get_board_issues_consistent:
  assumes "main_check cfg = Inr u"
    and "\<forall>s\<le>length all. \<exists>d n. board_issue srv s 50 = Inr d \<and>
                page_total d = Some (int (length all)) \<and>
                page_issues d = take n (drop s all) \<and> (s < length all \<longrightarrow> 0 < n)"
  shows "\<exists>tr. get_board_issues cfg srv = Some (Inr all, tr)"
  using fetch_loop_consistent [OF assms, of 0 "[]"] by (simp add: get_board_issues_def)

lemma get_board_issues_three_pages:
  assumes cfg: "main_check cfg = Inr u"
    and p0: "board_issue srv 0 50 = Inr d0" "length (page_issues d0) = 50" "page_total d0 = Some 120"
    and p1: "board_issue srv 50 50 = Inr d1" "length (page_issues d1) = 50" "page_total d1 = Some 120"
    and p2: "board_issue srv 100 50 = Inr d2" "length (page_issues d2) = 20" "page_total d2 = Some 120"
  shows "get_board_issues cfg srv =
           Some (Inr (page_issues d0 @ page_issues d1 @ page_issues d2),
                 [issue_event cfg 0, issue_event cfg 50, issue_event cfg 100])"
proof -
  have n0: "page_issues d0 \<noteq> []" and n1: "page_issues d1 \<noteq> []" using p0(2) p1(2) by auto
  have "get_board_issues cfg srv = fetch_loop cfg srv 50 (page_issues d0) [issue_event cfg 0]"
    using fetch_loop_continue [OF cfg p0(1) n0, of "[]" "[]"] p0(2,3)
    by (simp add: get_board_issues_def total_or_0_def)
  also have "\<dots> = fetch_loop cfg srv 100 (page_issues d0 @ page_issues d1)
                     [issue_event cfg 0, issue_event cfg 50]"
    using fetch_loop_continue [OF cfg p1(1) n1, of "page_issues d0" "[issue_event cfg 0]"] p1(2,3)
    by (simp add: total_or_0_def)
  also have "\<dots> = Some (Inr ((page_issues d0 @ page_issues d1) @ page_issues d2),
                 [issue_event cfg 0, issue_event cfg 50] @ [issue_event cfg 100])"
    using fetch_loop_reached [OF cfg p2(1), of "page_issues d0 @ page_issues d1"
       "[issue_event cfg 0, issue_event cfg 50]"] p2(2,3)
    by (simp add: total_or_0_def)
  finally show ?thesis by simp
qed

lemma fetch_loop_no_total:
  assumes cfg: "main_check cfg = Inr u"
    and d: "board_issue srv s 50 = Inr d" "page_total d = None"
  shows "fetch_loop cfg srv s acc tr = Some (Inr (acc @ page_issues d), tr @ [issue_event cfg s])"
  using fetch_loop_reached [OF cfg d(1), of acc tr] d(2) by (simp add: total_or_0_def)

lemma sample_config_eq:
  "sample_config = \<lparr> JIRA_BASE_URL = ''https://jira.example'', JIRA_EMAIL = Some ''ops@example.org'',
      JIRA_API_TOKEN = Some ''secret'', BOARD_ID = 2, SQL_SERVER = Some ''localhost'',
      SQL_DATABASE = ''JiraReporting'', SQL_AUTH = ''windows'', SQL_USERNAME = None,
      SQL_PASSWORD = None \<rparr>"
  by (simp add: sample_config_def load_config_def sample_env_def getenv_default_def
      rstrip_slash_def lower_char_def)

lemma sample_config_ok: "main_check sample_config = Inr ()"
  by (simp add: sample_config_eq main_check_def require_env_def)

lemma length_sample_issues: "length sample_issues = 120"
  by (simp add: sample_issues_def)

lemma sample_issues_pages:
  "take 50 sample_issues @ take 50 (drop 50 sample_issues) @ drop 100 sample_issues = sample_issues"
proof -
  have "drop 100 sample_issues = drop 50 (drop 50 sample_issues)" by simp
  then show ?thesis by (simp only: append_take_drop_id)
qed

lemma sample_fetch:
  "get_board_issues sample_config sample_jira =
     Some (Inr sample_issues, map (issue_event sample_config) [0, 50, 100])"
  using get_board_issues_three_pages [OF sample_config_ok, of sample_jira
       "\<lparr> page_issues = take 50 (drop 0 sample_issues), page_total = Some 120 \<rparr>"
       "\<lparr> page_issues = take 50 (drop 50 sample_issues), page_total = Some 120 \<rparr>"
       "\<lparr> page_issues = take 50 (drop 100 sample_issues), page_total = Some 120 \<rparr>"]
  by (simp add: sample_jira_def length_sample_issues sample_issues_pages)

lemma fetch_loop_returns:
  assumes cfg: "main_check cfg = Inr u"
  shows "offs \<noteq> [] \<Longrightarrow> hd offs = s \<Longrightarrow> successively (continues srv) offs \<Longrightarrow>
           ends_with srv offs acc r \<Longrightarrow>
           fetch_loop cfg srv s acc tr = Some (r, tr @ map (issue_event cfg) offs)"
proof (induction offs arbitrary: s acc tr)
  case Nil
  then show ?case by simp
next
  case (Cons a offs)
  from Cons.prems(2) have a: "a = s" by simp
  show ?case
  proof (cases offs)
    case Nil
    show ?thesis
    proof (cases "board_issue srv s 50")
      case (Inl e)
      with Cons.prems(4) Nil a have "r = Inl e" by simp
      with fetch_loop_error [OF cfg Inl, of acc tr] Nil a show ?thesis by simp
    next
      case (Inr d)
      with Cons.prems(4) Nil a have
        stop: "page_issues d = [] \<or> total_or_0 d \<le> int (s + length (page_issues d))"
        and r: "r = Inr (acc @ page_issues d)" by simp_all
      show ?thesis
      proof (cases "page_issues d = []")
        case True
        with fetch_loop_empty [OF cfg Inr True, of acc tr] r Nil a show ?thesis by simp
      next
        case False
        with stop fetch_loop_reached [OF cfg Inr, of acc tr] r Nil a show ?thesis by simp
      qed
    qed
  next
    case (Cons b rest)
    with Cons.prems(3) a have c: "continues srv s b" and sc: "successively (continues srv) offs"
      by simp_all
    from c obtain d where d: "board_issue srv s 50 = Inr d" "page_issues d \<noteq> []"
      "b = s + length (page_issues d)" "int b < total_or_0 d"
      by (cases "board_issue srv s 50") simp_all
    have l: "last (a # offs) = last offs" using Cons by simp
    have e: "ends_with srv offs (acc @ page_issues d) r"
    proof (cases "board_issue srv (last offs) 50")
      case (Inl x)
      with Cons.prems(4) show ?thesis unfolding l by simp
    next
      case (Inr x)
      with Cons.prems(4) d(1) a show ?thesis unfolding l by simp
    qed
    have "fetch_loop cfg srv s acc tr =
            fetch_loop cfg srv b (acc @ page_issues d) (tr @ [issue_event cfg s])"
      using fetch_loop_continue [OF cfg d(1,2), of acc tr] d(3,4) by simp
    also have "\<dots> = Some (r, (tr @ [issue_event cfg s]) @ map (issue_event cfg) offs)"
      using Cons by (intro Cons.IH [OF _ _ sc e]) simp_all
    finally show ?thesis using a by simp
  qed
qed

text \<open>
  C5. With the Jira settings present, every request of the issue fetch asks for 50 issues
  at an offset, and an absent total counts as 0. At every state of the loop, a failed
  request ends the fetch with its error; a page without issues, or a page that brings the
  offset up to the reported total, ends the fetch with the issues accumulated; any other
  page moves the loop on to the offset increased by the number of issues the page
  returned. So the fetch returns exactly when the pages lead from offset 0 to such an
  end in finitely many requests: the offsets requested are then those of that chain, each
  the previous one plus the number of issues its page returned, and the result is the
  pages in order. An empty first page gives the empty list as a regular result.
\<close>

theorem get_board_issues_pages:
  assumes "main_check cfg = Inr u"
  shows "(\<forall>s. issue_event cfg s =
            HttpGet (JIRA_BASE_URL cfg @ ''/rest/agile/1.0/board/'' @ str_int (BOARD_ID cfg) @ ''/issue'')
              [(''startAt'', s), (''maxResults'', 50)]) \<and>
         (\<forall>d. total_or_0 d = (case page_total d of None \<Rightarrow> 0 | Some n \<Rightarrow> n)) \<and>
         (\<forall>r tr. get_board_issues cfg srv = Some (r, tr) \<longrightarrow>
            (\<exists>offs. offs \<noteq> [] \<and> hd offs = 0 \<and> tr = map (issue_event cfg) offs \<and>
               successively (continues srv) offs \<and> ends_with srv offs [] r)) \<and>
         (\<forall>d. board_issue srv 0 50 = Inr d \<and> page_issues d = [] \<longrightarrow>
            get_board_issues cfg srv = Some (Inr [], [issue_event cfg 0])) \<and>
         (\<forall>offs r. offs \<noteq> [] \<and> hd offs = 0 \<and> successively (continues srv) offs \<and>
              ends_with srv offs [] r \<longrightarrow>
            get_board_issues cfg srv = Some (r, map (issue_event cfg) offs)) \<and>
         (\<forall>s acc tr e. board_issue srv s 50 = Inl e \<longrightarrow>
            fetch_loop cfg srv s acc tr = Some (Inl e, tr @ [issue_event cfg s])) \<and>
         (\<forall>s acc tr d. board_issue srv s 50 = Inr d \<and>
              (page_issues d = [] \<or>
               (case page_total d of None \<Rightarrow> 0 | Some n \<Rightarrow> n) \<le> int (s + length (page_issues d))) \<longrightarrow>
            fetch_loop cfg srv s acc tr =
              Some (Inr (acc @ page_issues d), tr @ [issue_event cfg s])) \<and>
         (\<forall>s acc tr d. board_issue srv s 50 = Inr d \<and> page_issues d \<noteq> [] \<and>
              int (s + length (page_issues d)) < (case page_total d of None \<Rightarrow> 0 | Some n \<Rightarrow> n) \<longrightarrow>
            fetch_loop cfg srv s acc tr =
              fetch_loop cfg srv (s + length (page_issues d)) (acc @ page_issues d)
                (tr @ [issue_event cfg s]))"
proof (intro conjI allI impI)
  fix s show "issue_event cfg s =
            HttpGet (JIRA_BASE_URL cfg @ ''/rest/agile/1.0/board/'' @ str_int (BOARD_ID cfg) @ ''/issue'')
              [(''startAt'', s), (''maxResults'', 50)]"
    by (simp add: issue_event_def max_results_def)
next
  fix d show "total_or_0 d = (case page_total d of None \<Rightarrow> 0 | Some n \<Rightarrow> n)"
    by (simp add: total_or_0_def)
next
  fix r tr assume "get_board_issues cfg srv = Some (r, tr)"
  then have "fetch_loop cfg srv 0 [] [] = Some (r, tr)" by (simp add: get_board_issues_def)
  from fetch_loop_trace [OF this assms] obtain offs where
    "offs \<noteq> []" "hd offs = 0" "snd (r, tr) = [] @ map (issue_event cfg) offs"
    "successively (continues srv) offs" "ends_with srv offs [] (fst (r, tr))"
    by blast
  then show "\<exists>offs. offs \<noteq> [] \<and> hd offs = 0 \<and> tr = map (issue_event cfg) offs \<and>
               successively (continues srv) offs \<and> ends_with srv offs [] r"
    by (intro exI [of _ offs]) (simp split: sum.splits)
next
  fix d assume "board_issue srv 0 50 = Inr d \<and> page_issues d = []"
  then show "get_board_issues cfg srv = Some (Inr [], [issue_event cfg 0])"
    using fetch_loop_empty [OF assms, of srv 0 d "[]" "[]"] by (simp add: get_board_issues_def)
next
  fix offs r
  assume a: "offs \<noteq> [] \<and> hd offs = 0 \<and> successively (continues srv) offs \<and>
              ends_with srv offs [] r"
  then have "fetch_loop cfg srv 0 [] [] = Some (r, [] @ map (issue_event cfg) offs)"
    by (intro fetch_loop_returns [OF assms]) blast+
  then show "get_board_issues cfg srv = Some (r, map (issue_event cfg) offs)"
    by (simp add: get_board_issues_def)
next
  fix s acc tr e assume "board_issue srv s 50 = Inl e"
  then show "fetch_loop cfg srv s acc tr = Some (Inl e, tr @ [issue_event cfg s])"
    by (rule fetch_loop_error [OF assms])
next
  fix s acc tr d
  assume a: "board_issue srv s 50 = Inr d \<and>
              (page_issues d = [] \<or>
               (case page_total d of None \<Rightarrow> 0 | Some n \<Rightarrow> n) \<le> int (s + length (page_issues d)))"
  show "fetch_loop cfg srv s acc tr = Some (Inr (acc @ page_issues d), tr @ [issue_event cfg s])"
  proof (cases "page_issues d = []")
    case True
    with a fetch_loop_empty [OF assms, of srv s d acc tr] show ?thesis by simp
  next
    case False
    with a have "total_or_0 d \<le> int (s + length (page_issues d))" by (simp add: total_or_0_def)
    with a fetch_loop_reached [OF assms, of srv s d acc tr] show ?thesis by blast
  qed
next
  fix s acc tr d
  assume a: "board_issue srv s 50 = Inr d \<and> page_issues d \<noteq> [] \<and>
              int (s + length (page_issues d)) < (case page_total d of None \<Rightarrow> 0 | Some n \<Rightarrow> n)"
  then have "int (s + length (page_issues d)) < total_or_0 d" by (simp add: total_or_0_def)
  with a show "fetch_loop cfg srv s acc tr =
              fetch_loop cfg srv (s + length (page_issues d)) (acc @ page_issues d)
                (tr @ [issue_event cfg s])"
    using fetch_loop_continue [OF assms, of srv s d acc tr] by blast
qed

theorem get_board_issues_pages_witness:
  "main_check sample_config = Inr () \<and>
   successively (continues sample_jira) [0, 50, 100] \<and>
   ends_with sample_jira [0, 50, 100] [] (Inr sample_issues) \<and>
   get_board_issues sample_config sample_jira =
     Some (Inr sample_issues, map (issue_event sample_config) [0, 50, 100]) \<and>
   (\<exists>offs. offs \<noteq> [] \<and> hd offs = 0 \<and>
      map (issue_event sample_config) [0, 50, 100] = map (issue_event sample_config) offs \<and>
      successively (continues sample_jira) offs \<and> ends_with sample_jira offs [] (Inr sample_issues)) \<and>
   board_issue empty_jira 0 50 = Inr \<lparr> page_issues = [], page_total = Some 0 \<rparr> \<and>
   get_board_issues sample_config empty_jira = Some (Inr [], [issue_event sample_config 0])"
proof -
  note a = get_board_issues_pages [OF sample_config_ok, of sample_jira]
  note b = get_board_issues_pages [OF sample_config_ok, of empty_jira]
  note a3 = a [THEN conjunct2, THEN conjunct2, THEN conjunct1, rule_format]
  note a5 = a [THEN conjunct2, THEN conjunct2, THEN conjunct2, THEN conjunct2, THEN conjunct1,
      rule_format]
  note b4 = b [THEN conjunct2, THEN conjunct2, THEN conjunct2, THEN conjunct1, rule_format]
  have e: "board_issue empty_jira 0 50 = Inr \<lparr> page_issues = [], page_total = Some 0 \<rparr>"
    by (simp add: empty_jira_def)
  have s: "successively (continues sample_jira) [0, 50, 100]"
    by (simp add: sample_jira_def total_or_0_def length_sample_issues)
  have w: "ends_with sample_jira [0, 50, 100] [] (Inr sample_issues)"
    using sample_issues_pages
    by (simp add: sample_jira_def total_or_0_def length_sample_issues)
  have g: "get_board_issues sample_config sample_jira =
     Some (Inr sample_issues, map (issue_event sample_config) [0, 50, 100])"
    by (rule a5) (use s w in simp)
  from a3 [OF g] have x: "\<exists>offs. offs \<noteq> [] \<and> hd offs = 0 \<and>
      map (issue_event sample_config) [0, 50, 100] = map (issue_event sample_config) offs \<and>
      successively (continues sample_jira) offs \<and> ends_with sample_jira offs [] (Inr sample_issues)" .
  have y: "get_board_issues sample_config empty_jira = Some (Inr [], [issue_event sample_config 0])"
    using b4 [of "\<lparr> page_issues = [], page_total = Some 0 \<rparr>"] e by simp
  from sample_config_ok s w g x e y show ?thesis by blast
qed

text \<open>
  C2, as amended. With the Jira settings present: when the source is consistent (every
  page reports the number of issues of the board as the total, and the page at an offset
  is a run of the board's issues from that offset, not empty below the total), the fetch
  ends and returns exactly the board's issues, so their number is the reported total. The
  loop goes on after every non-empty page that leaves the offset below the reported total,
  whatever the page's length, and ends on an empty page or when the offset reaches the
  total. With a total of 120 and pages of 50, 50 and 20 issues, three requests are made,
  at the offsets 0, 50 and 100, and 120 issues are returned.
\<close>

theorem get_board_issues_consistent_source:
  assumes "main_check cfg = Inr u"
  shows "((\<forall>s\<le>length all. \<exists>d n. board_issue srv s 50 = Inr d \<and>
             page_total d = Some (int (length all)) \<and>
             page_issues d = take n (drop s all) \<and> (s < length all \<longrightarrow> 0 < n)) \<longrightarrow>
          (\<exists>tr. get_board_issues cfg srv = Some (Inr all, tr))) \<and>
         (\<forall>d s acc tr. board_issue srv s 50 = Inr d \<and> page_issues d \<noteq> [] \<and>
              int (s + length (page_issues d)) < total_or_0 d \<longrightarrow>
            fetch_loop cfg srv s acc tr =
              fetch_loop cfg srv (s + length (page_issues d)) (acc @ page_issues d)
                (tr @ [issue_event cfg s])) \<and>
         (\<forall>d s acc tr. board_issue srv s 50 = Inr d \<and>
              (page_issues d = [] \<or> total_or_0 d \<le> int (s + length (page_issues d))) \<longrightarrow>
            fetch_loop cfg srv s acc tr =
              Some (Inr (acc @ page_issues d), tr @ [issue_event cfg s])) \<and>
         (\<forall>d0 d1 d2.
            board_issue srv 0 50 = Inr d0 \<and> length (page_issues d0) = 50 \<and> page_total d0 = Some 120 \<and>
            board_issue srv 50 50 = Inr d1 \<and> length (page_issues d1) = 50 \<and> page_total d1 = Some 120 \<and>
            board_issue srv 100 50 = Inr d2 \<and> length (page_issues d2) = 20 \<and> page_total d2 = Some 120 \<longrightarrow>
            get_board_issues cfg srv =
              Some (Inr (page_issues d0 @ page_issues d1 @ page_issues d2),
                    [issue_event cfg 0, issue_event cfg 50, issue_event cfg 100]) \<and>
            length (page_issues d0 @ page_issues d1 @ page_issues d2) = 120)"
proof (intro conjI allI impI)
  assume "\<forall>s\<le>length all. \<exists>d n. board_issue srv s 50 = Inr d \<and>
             page_total d = Some (int (length all)) \<and>
             page_issues d = take n (drop s all) \<and> (s < length all \<longrightarrow> 0 < n)"
  from get_board_issues_consistent [OF assms this]
  show "\<exists>tr. get_board_issues cfg srv = Some (Inr all, tr)" .
next
  fix d s acc tr
  assume "board_issue srv s 50 = Inr d \<and> page_issues d \<noteq> [] \<and>
              int (s + length (page_issues d)) < total_or_0 d"
  then show "fetch_loop cfg srv s acc tr =
              fetch_loop cfg srv (s + length (page_issues d)) (acc @ page_issues d)
                (tr @ [issue_event cfg s])"
    using fetch_loop_continue [OF assms, of srv s d acc tr] by blast
next
  fix d s acc tr
  assume a: "board_issue srv s 50 = Inr d \<and>
              (page_issues d = [] \<or> total_or_0 d \<le> int (s + length (page_issues d)))"
  show "fetch_loop cfg srv s acc tr = Some (Inr (acc @ page_issues d), tr @ [issue_event cfg s])"
  proof (cases "page_issues d = []")
    case True
    with a fetch_loop_empty [OF assms, of srv s d acc tr] show ?thesis by simp
  next
    case False
    with a fetch_loop_reached [OF assms, of srv s d acc tr] show ?thesis by blast
  qed
next
  fix d0 d1 d2
  assume "board_issue srv 0 50 = Inr d0 \<and> length (page_issues d0) = 50 \<and> page_total d0 = Some 120 \<and>
            board_issue srv 50 50 = Inr d1 \<and> length (page_issues d1) = 50 \<and> page_total d1 = Some 120 \<and>
            board_issue srv 100 50 = Inr d2 \<and> length (page_issues d2) = 20 \<and> page_total d2 = Some 120"
  then show "get_board_issues cfg srv =
              Some (Inr (page_issues d0 @ page_issues d1 @ page_issues d2),
                    [issue_event cfg 0, issue_event cfg 50, issue_event cfg 100])"
    using get_board_issues_three_pages [OF assms, of srv d0 d1 d2] by blast
next
  fix d0 d1 d2
  assume "board_issue srv 0 50 = Inr d0 \<and> length (page_issues d0) = 50 \<and> page_total d0 = Some 120 \<and>
            board_issue srv 50 50 = Inr d1 \<and> length (page_issues d1) = 50 \<and> page_total d1 = Some 120 \<and>
            board_issue srv 100 50 = Inr d2 \<and> length (page_issues d2) = 20 \<and> page_total d2 = Some 120"
  then show "length (page_issues d0 @ page_issues d1 @ page_issues d2) = 120" by simp
qed

lemma sample_jira_consistent:
  "\<forall>s\<le>length sample_issues. \<exists>d n. board_issue sample_jira s 50 = Inr d \<and>
             page_total d = Some (int (length sample_issues)) \<and>
             page_issues d = take n (drop s sample_issues) \<and> (s < length sample_issues \<longrightarrow> 0 < n)"
proof (intro allI impI)
  fix s
  show "\<exists>d n. board_issue sample_jira s 50 = Inr d \<and>
             page_total d = Some (int (length sample_issues)) \<and>
             page_issues d = take n (drop s sample_issues) \<and> (s < length sample_issues \<longrightarrow> 0 < n)"
    by (intro exI [of _ "\<lparr> page_issues = take 50 (drop s sample_issues), page_total = Some 120 \<rparr>"]
        exI [of _ 50]) (simp add: sample_jira_def length_sample_issues)
qed

theorem get_board_issues_consistent_source_witness:
  "main_check sample_config = Inr () \<and>
   board_issue sample_jira 0 50 = Inr \<lparr> page_issues = take 50 sample_issues, page_total = Some 120 \<rparr> \<and>
   board_issue sample_jira 50 50 = Inr \<lparr> page_issues = take 50 (drop 50 sample_issues), page_total = Some 120 \<rparr> \<and>
   board_issue sample_jira 100 50 = Inr \<lparr> page_issues = drop 100 sample_issues, page_total = Some 120 \<rparr> \<and>
   (\<exists>tr. get_board_issues sample_config sample_jira = Some (Inr sample_issues, tr)) \<and>
   get_board_issues sample_config sample_jira =
     Some (Inr (take 50 sample_issues @ take 50 (drop 50 sample_issues) @ drop 100 sample_issues),
           [issue_event sample_config 0, issue_event sample_config 50, issue_event sample_config 100]) \<and>
   length (take 50 sample_issues @ take 50 (drop 50 sample_issues) @ drop 100 sample_issues) = 120"
proof -
  note t = get_board_issues_consistent_source [OF sample_config_ok, of sample_issues sample_jira]
  have p0: "board_issue sample_jira 0 50 = Inr \<lparr> page_issues = take 50 sample_issues, page_total = Some 120 \<rparr>"
    and p1: "board_issue sample_jira 50 50 = Inr \<lparr> page_issues = take 50 (drop 50 sample_issues), page_total = Some 120 \<rparr>"
    and p2: "board_issue sample_jira 100 50 = Inr \<lparr> page_issues = drop 100 sample_issues, page_total = Some 120 \<rparr>"
    by (simp_all add: sample_jira_def length_sample_issues)
  from t sample_jira_consistent
  have a: "\<exists>tr. get_board_issues sample_config sample_jira = Some (Inr sample_issues, tr)"
    by blast
  have l: "length (take 50 sample_issues) = 50" "length (take 50 (drop 50 sample_issues)) = 50"
       "length (drop 100 sample_issues) = 20"
    by (simp_all add: length_sample_issues)
  from t p0 p1 p2 l
  have b: "get_board_issues sample_config sample_jira =
     Some (Inr (take 50 sample_issues @ take 50 (drop 50 sample_issues) @ drop 100 sample_issues),
           [issue_event sample_config 0, issue_event sample_config 50, issue_event sample_config 100]) \<and>
   length (take 50 sample_issues @ take 50 (drop 50 sample_issues) @ drop 100 sample_issues) = 120"
    by (metis jpage.select_convs(1,2))
  from a b p0 p1 p2 sample_config_ok show ?thesis by blast
qed

text \<open>
  C2 as stated fails: the server below answers every request, reports a total of 120, and
  returns 30 issues at offset 0 and none at offset 30. The first page is shorter than the
  page size and than the total, and the fetch does not stop there: it sends a second
  request. It ends with 30 issues, not the 120 reported.
\<close>

theorem short_page_counterexample:
  "board_issue short_jira 0 50 = Inr \<lparr> page_issues = take 30 sample_issues, page_total = Some 120 \<rparr> \<and>
   board_issue short_jira 30 50 = Inr \<lparr> page_issues = [], page_total = Some 120 \<rparr> \<and>
   get_board_issues sample_config short_jira =
     Some (Inr (take 30 sample_issues), [issue_event sample_config 0, issue_event sample_config 30]) \<and>
   length (take 30 sample_issues) = 30"
proof -
  have p0: "board_issue short_jira 0 50 = Inr \<lparr> page_issues = take 30 sample_issues, page_total = Some 120 \<rparr>"
    and p1: "board_issue short_jira 30 50 = Inr \<lparr> page_issues = [], page_total = Some 120 \<rparr>"
    by (simp_all add: short_jira_def)
  have l: "length (take 30 sample_issues) = 30" by (simp add: length_sample_issues)
  then have ne: "take 30 sample_issues \<noteq> []" by auto
  have "get_board_issues sample_config short_jira =
          fetch_loop sample_config short_jira 30 (take 30 sample_issues) [issue_event sample_config 0]"
    using fetch_loop_continue [OF sample_config_ok p0, of "[]" "[]"] ne l
    by (simp add: get_board_issues_def total_or_0_def)
  also have "\<dots> = Some (Inr (take 30 sample_issues), [issue_event sample_config 0] @ [issue_event sample_config 30])"
    using fetch_loop_empty [OF sample_config_ok p1, of "take 30 sample_issues" "[issue_event sample_config 0]"]
    by simp
  finally show ?thesis using p0 p1 l by simp
qed

text \<open>
  C10. When the page returned at an offset has no \<open>total\<close>, the total counts as 0: the
  issues of that page are accumulated and the loop ends with this request, whatever the
  state of the loop and whatever the board holds beyond the page.
\<close>

theorem fetch_loop_missing_total:
  assumes "main_check cfg = Inr u"
    and "board_issue srv s 50 = Inr d" and "page_total d = None"
  shows "total_or_0 d = 0 \<and>
         fetch_loop cfg srv s acc tr = Some (Inr (acc @ page_issues d), tr @ [issue_event cfg s])"
  using fetch_loop_no_total [OF assms, of acc tr] assms(3) by (simp add: total_or_0_def)

theorem fetch_loop_missing_total_witness:
  "main_check sample_config = Inr () \<and>
   board_issue untotalled_jira 0 50 = Inr \<lparr> page_issues = take 50 sample_issues, page_total = None \<rparr> \<and>
   get_board_issues sample_config untotalled_jira =
     Some (Inr (take 50 sample_issues), [issue_event sample_config 0]) \<and>
   length (take 50 sample_issues) = 50 \<and> length sample_issues = 120"
proof -
  have p: "board_issue untotalled_jira 0 50 = Inr \<lparr> page_issues = take 50 sample_issues, page_total = None \<rparr>"
    by (simp add: untotalled_jira_def)
  from fetch_loop_missing_total [OF sample_config_ok p, of "[]" "[]"]
  show ?thesis using p sample_config_ok by (simp add: get_board_issues_def length_sample_issues)
qed

section \<open>Sequences of MERGE statements\<close>

text \<open>
  The lemmas of this section hold for every \<^verbatim>\<open>MERGE\<close> statement whose update keeps
  the columns of the \<^verbatim>\<open>ON\<close> condition, whose inserted row satisfies the condition,
  and whose update overwrites what an earlier update or the insert wrote.
\<close>

lemma merge_stmt_matched:
  "list_ex (on s) tbl \<Longrightarrow>
     merge_stmt on upd ins s tbl = Inr (map (\<lambda>t. if on s t then upd s t else t) tbl)"
  by (simp add: merge_stmt_def)

lemma merge_stmt_prefix:
  assumes "merge_stmt on upd ins s tbl = Inr tbl'"
  shows "take (length tbl) tbl' = map (\<lambda>t. if on s t then upd s t else t) tbl"
proof (cases "list_ex (on s) tbl")
  case True
  with assms show ?thesis by (auto simp: merge_stmt_def)
next
  case False
  then have "map (\<lambda>t. if on s t then upd s t else t) tbl = tbl"
    by (intro map_idI) (auto simp: list_ex_iff)
  with assms False show ?thesis
    by (auto simp: merge_stmt_def split: sum.splits)
qed

lemma merge_stmt_length:
  "merge_stmt on upd ins s tbl = Inr tbl' \<Longrightarrow> length tbl \<le> length tbl'"
  by (auto simp: merge_stmt_def split: if_splits sum.splits)

lemma update_all_Nil: "update_all on upd [] t = t"
  by (simp add: update_all_def)

lemma update_all_Cons:
  "update_all on upd (s # ss) t = update_all on upd ss (if on s t then upd s t else t)"
  by (simp add: update_all_def)

lemma update_all_snoc:
  "update_all on upd (ss @ [s]) t =
     (if on s (update_all on upd ss t) then upd s (update_all on upd ss t)
      else update_all on upd ss t)"
  by (simp add: update_all_def)

lemma on_update_all:
  assumes A1: "\<And>s s' t. on s (upd s' t) = on s t"
  shows "on s (update_all on upd ss t) = on s t"
  by (induction ss arbitrary: t) (simp_all add: update_all_Nil update_all_Cons A1)

lemma update_all_then_update:
  assumes A1: "\<And>s s' t. on s (upd s' t) = on s t"
    and A3: "\<And>s s' t. on s t \<Longrightarrow> upd s (upd s' t) = upd s t"
  shows "on c t \<Longrightarrow> upd c (update_all on upd ss t) = upd c t"
proof (induction ss arbitrary: t)
  case Nil
  then show ?case by (simp add: update_all_Nil)
next
  case (Cons s ss)
  show ?case
  proof (cases "on s t")
    case True
    from Cons.prems have "on c (upd s t)" by (simp add: A1)
    from Cons.IH [OF this] True Cons.prems show ?thesis
      by (simp add: update_all_Cons A3)
  next
    case False
    with Cons.IH [OF Cons.prems] show ?thesis by (simp add: update_all_Cons)
  qed
qed

lemma merge_all_snoc:
  "merge_all on upd ins (ss @ [s]) tbl =
     (case merge_all on upd ins ss tbl of
        Inl e \<Rightarrow> Inl e
      | Inr tbl' \<Rightarrow> merge_stmt on upd ins s tbl')"
  by (induction ss arbitrary: tbl) (auto split: sum.splits)

lemma merge_all_fixed:
  assumes A1: "\<And>s s' t. on s (upd s' t) = on s t"
    and A2: "\<And>s r. ins s = Inr r \<Longrightarrow> on s r"
    and A3: "\<And>s s' t. on s t \<Longrightarrow> upd s (upd s' t) = upd s t"
    and A4: "\<And>s r. ins s = Inr r \<Longrightarrow> upd s r = r"
  shows "merge_all on upd ins ss tbl = Inr tbl' \<Longrightarrow> x \<in> set tbl' \<Longrightarrow> update_all on upd ss x = x"
proof (induction ss arbitrary: tbl' x rule: rev_induct)
  case Nil
  then show ?case by (simp add: update_all_Nil)
next
  case (snoc s ss)
  note oua = on_update_all [of on upd, OF A1]
  note uau = update_all_then_update [of on upd, OF A1 A3]
  from snoc.prems(1) obtain tbl1 where
    t1: "merge_all on upd ins ss tbl = Inr tbl1" and m: "merge_stmt on upd ins s tbl1 = Inr tbl'"
    by (auto simp: merge_all_snoc split: sum.splits)
  have matched: "update_all on upd (ss @ [s]) y = upd s y" if "on s y" for y
    using that by (simp add: update_all_snoc oua uau)
  show ?case
  proof (cases "list_ex (on s) tbl1")
    case True
    with m have "tbl' = map (\<lambda>t. if on s t then upd s t else t) tbl1"
      by (simp add: merge_stmt_def)
    with snoc.prems(2) obtain t where t: "t \<in> set tbl1" "x = (if on s t then upd s t else t)"
      by auto
    show ?thesis
    proof (cases "on s t")
      case True
      with t have "x = upd s t" by simp
      moreover from True have "on s (upd s t)" by (simp add: A1)
      ultimately show ?thesis using matched [of "upd s t"] True by (simp add: A3)
    next
      case False
      with t have "x = t" by simp
      with False snoc.IH [OF t1 t(1)] show ?thesis by (simp add: update_all_snoc)
    qed
  next
    case False
    with m obtain r where r: "ins s = Inr r" "tbl' = tbl1 @ [r]"
      by (auto simp: merge_stmt_def split: sum.splits)
    from snoc.prems(2) r(2) consider "x \<in> set tbl1" | "x = r" by auto
    then show ?thesis
    proof cases
      case 1
      with False have "\<not> on s x" by (auto simp: list_ex_iff)
      with snoc.IH [OF t1 1] show ?thesis by (simp add: update_all_snoc)
    next
      case 2
      with matched [of r] A2 [OF r(1)] A4 [OF r(1)] show ?thesis by simp
    qed
  qed
qed

lemma list_ex_updated:
  assumes A1: "\<And>s s' t. on s (upd s' t) = on s t"
  shows "list_ex (on s) (map (\<lambda>t. if on a t then upd a t else t) tbl) = list_ex (on s) tbl"
  by (induction tbl) (simp_all add: A1)

lemma merge_stmt_keeps_match:
  assumes A1: "\<And>s s' t. on s (upd s' t) = on s t"
  shows "merge_stmt on upd ins s' tbl = Inr tbl' \<Longrightarrow> list_ex (on s) tbl \<Longrightarrow> list_ex (on s) tbl'"
  by (auto simp: merge_stmt_def list_ex_updated [of on upd, OF A1] split: if_splits sum.splits)

lemma merge_stmt_makes_match:
  assumes A1: "\<And>s s' t. on s (upd s' t) = on s t"
    and A2: "\<And>s r. ins s = Inr r \<Longrightarrow> on s r"
  shows "merge_stmt on upd ins s tbl = Inr tbl' \<Longrightarrow> list_ex (on s) tbl'"
  by (auto simp: merge_stmt_def list_ex_updated [of on upd, OF A1] dest: A2
           split: if_splits sum.splits)

lemma merge_all_keeps_match:
  assumes A1: "\<And>s s' t. on s (upd s' t) = on s t"
  shows "merge_all on upd ins ss tbl = Inr tbl' \<Longrightarrow> list_ex (on s) tbl \<Longrightarrow> list_ex (on s) tbl'"
proof (induction ss arbitrary: tbl)
  case Nil
  then show ?case by simp
next
  case (Cons a ss)
  from Cons.prems(1) obtain tbl1 where
    m: "merge_stmt on upd ins a tbl = Inr tbl1" and r: "merge_all on upd ins ss tbl1 = Inr tbl'"
    by (auto split: sum.splits)
  from merge_stmt_keeps_match [of on upd ins, OF A1 m Cons.prems(2)] Cons.IH [OF r]
  show ?case by blast
qed

lemma merge_all_makes_match:
  assumes A1: "\<And>s s' t. on s (upd s' t) = on s t"
    and A2: "\<And>s r. ins s = Inr r \<Longrightarrow> on s r"
  shows "merge_all on upd ins ss tbl = Inr tbl' \<Longrightarrow> s \<in> set ss \<Longrightarrow> list_ex (on s) tbl'"
proof (induction ss arbitrary: tbl)
  case Nil
  then show ?case by simp
next
  case (Cons a ss)
  from Cons.prems(1) obtain tbl1 where
    m: "merge_stmt on upd ins a tbl = Inr tbl1" and r: "merge_all on upd ins ss tbl1 = Inr tbl'"
    by (auto split: sum.splits)
  show ?case
  proof (cases "s = a")
    case True
    with merge_stmt_makes_match [of on upd ins, OF A1 A2 m] have "list_ex (on s) tbl1" by simp
    from merge_all_keeps_match [of on upd ins, OF A1 r this] show ?thesis .
  next
    case False
    with Cons.prems(2) have "s \<in> set ss" by simp
    from Cons.IH [OF r this] show ?thesis .
  qed
qed

lemma merge_all_present:
  assumes A1: "\<And>s s' t. on s (upd s' t) = on s t"
  shows "(\<And>s. s \<in> set ss \<Longrightarrow> list_ex (on s) tbl) \<Longrightarrow>
           merge_all on upd ins ss tbl = Inr (map (update_all on upd ss) tbl)"
proof (induction ss arbitrary: tbl)
  case Nil
  then show ?case by (simp add: update_all_Nil)
next
  case (Cons a ss)
  let ?tbl1 = "map (\<lambda>t. if on a t then upd a t else t) tbl"
  have m: "merge_stmt on upd ins a tbl = Inr ?tbl1"
    using Cons.prems [of a] by (simp add: merge_stmt_matched)
  have "list_ex (on s) ?tbl1" if "s \<in> set ss" for s
    using Cons.prems [of s] that by (simp add: list_ex_updated [of on upd, OF A1])
  from Cons.IH [OF this] m show ?case
    by (simp add: update_all_Cons comp_def)
qed

lemma merge_all_idem:
  assumes A1: "\<And>s s' t. on s (upd s' t) = on s t"
    and A2: "\<And>s r. ins s = Inr r \<Longrightarrow> on s r"
    and A3: "\<And>s s' t. on s t \<Longrightarrow> upd s (upd s' t) = upd s t"
    and A4: "\<And>s r. ins s = Inr r \<Longrightarrow> upd s r = r"
    and run: "merge_all on upd ins ss tbl = Inr tbl'"
  shows "merge_all on upd ins ss tbl' = Inr tbl'"
proof -
  have "merge_all on upd ins ss tbl' = Inr (map (update_all on upd ss) tbl')"
    by (rule merge_all_present [of on upd, OF A1])
       (rule merge_all_makes_match [of on upd ins, OF A1 A2 run])
  moreover have "map (update_all on upd ss) tbl' = tbl'"
    by (rule map_idI) (rule merge_all_fixed [of on upd ins, OF A1 A2 A3 A4 run])
  ultimately show ?thesis by simp
qed

lemma merge_all_prefix:
  "merge_all on upd ins ss tbl = Inr tbl' \<Longrightarrow>
     length tbl \<le> length tbl' \<and> take (length tbl) tbl' = map (update_all on upd ss) tbl"
proof (induction ss arbitrary: tbl)
  case Nil
  then show ?case by (simp add: update_all_Nil)
next
  case (Cons a ss)
  from Cons.prems(1) obtain tbl1 where
    m: "merge_stmt on upd ins a tbl = Inr tbl1" and r: "merge_all on upd ins ss tbl1 = Inr tbl'"
    by (auto split: sum.splits)
  note l1 = merge_stmt_length [OF m] and p1 = merge_stmt_prefix [OF m]
  from Cons.IH [OF r] have l2: "length tbl1 \<le> length tbl'"
    and p2: "take (length tbl1) tbl' = map (update_all on upd ss) tbl1" by simp_all
  have "take (length tbl) tbl' = take (length tbl) (take (length tbl1) tbl')"
    using l1 by (simp add: min_def)
  also have "\<dots> = map (update_all on upd ss) (take (length tbl) tbl1)"
    by (simp add: p2 take_map)
  also have "\<dots> = map (update_all on upd (a # ss)) tbl"
    by (simp add: p1 update_all_Cons comp_def)
  finally show ?case using l1 l2 by simp
qed

lemma merge_stmt_count:
  assumes A1: "\<And>s s' t. on s (upd s' t) = on s t"
    and A2: "\<And>s r. ins s = Inr r \<Longrightarrow> on s r"
    and K: "\<And>s s' t t'. on s t \<Longrightarrow> on s' t \<Longrightarrow> on s t' \<Longrightarrow> on s' t'"
    and m: "merge_stmt on upd ins s' tbl = Inr tbl'"
    and ex: "list_ex (on s) tbl"
  shows "length (filter (on s) tbl') = length (filter (on s) tbl)"
proof (cases "list_ex (on s') tbl")
  case True
  with m have "tbl' = map (\<lambda>t. if on s' t then upd s' t else t) tbl"
    by (simp add: merge_stmt_def)
  moreover have "(on s \<circ> (\<lambda>t. if on s' t then upd s' t else t)) = on s"
    by (rule ext) (simp add: A1)
  ultimately show ?thesis by (simp add: filter_map)
next
  case False
  with m obtain r where r: "ins s' = Inr r" "tbl' = tbl @ [r]"
    by (auto simp: merge_stmt_def split: sum.splits)
  from ex obtain t0 where t0: "t0 \<in> set tbl" "on s t0" by (auto simp: list_ex_iff)
  have "\<not> on s r"
  proof
    assume "on s r"
    from K [OF this A2 [OF r(1)] t0(2)] t0(1) False show False by (auto simp: list_ex_iff)
  qed
  with r(2) show ?thesis by simp
qed

lemma merge_all_count:
  assumes A1: "\<And>s s' t. on s (upd s' t) = on s t"
    and A2: "\<And>s r. ins s = Inr r \<Longrightarrow> on s r"
    and K: "\<And>s s' t t'. on s t \<Longrightarrow> on s' t \<Longrightarrow> on s t' \<Longrightarrow> on s' t'"
  shows "merge_all on upd ins ss tbl = Inr tbl' \<Longrightarrow> list_ex (on s) tbl \<Longrightarrow>
           length (filter (on s) tbl') = length (filter (on s) tbl)"
proof (induction ss arbitrary: tbl)
  case Nil
  then show ?case by simp
next
  case (Cons a ss)
  from Cons.prems(1) obtain tbl1 where
    m: "merge_stmt on upd ins a tbl = Inr tbl1" and r: "merge_all on upd ins ss tbl1 = Inr tbl'"
    by (auto split: sum.splits)
  note c = merge_stmt_count [of on upd ins, OF A1 A2 K m Cons.prems(2)]
  note e = merge_stmt_keeps_match [of on upd ins, OF A1 m Cons.prems(2)]
  from Cons.IH [OF r e] c show ?case by simp
qed

lemma update_all_unmatched:
  "(\<And>s. s \<in> set ss \<Longrightarrow> \<not> on s t) \<Longrightarrow> update_all on upd ss t = t"
  by (induction ss) (simp_all add: update_all_Nil update_all_Cons)

lemma update_all_append:
  "update_all on upd (xs @ ys) t = update_all on upd ys (update_all on upd xs t)"
  by (simp add: update_all_def)

lemma update_all_last_wins:
  assumes A1: "\<And>s s' t. on s (upd s' t) = on s t"
    and A3: "\<And>s s' t. on s t \<Longrightarrow> upd s (upd s' t) = upd s t"
    and c: "on c t" and ys: "\<And>s. s \<in> set ys \<Longrightarrow> \<not> on s t"
  shows "update_all on upd (xs @ c # ys) t = upd c t"
proof -
  have "update_all on upd (xs @ [c]) t = upd c t"
    using c by (simp add: update_all_snoc on_update_all [of on upd, OF A1]
                  update_all_then_update [of on upd, OF A1 A3])
  moreover have "update_all on upd ys (upd c t) = upd c t"
    by (rule update_all_unmatched) (simp add: A1 ys)
  moreover have "xs @ c # ys = (xs @ [c]) @ ys" by simp
  ultimately show ?thesis by (simp only: update_all_append)
qed

subsection \<open>The statement of the column upsert\<close>

lemma column_A1: "column_match s (column_update s' t) = column_match s t"
  by (simp add: column_match_def column_update_def)

lemma column_A2: "column_insert s = Inr r \<Longrightarrow> column_match s r"
  by (auto simp: column_match_def column_insert_def)

lemma column_A3: "column_match s t \<Longrightarrow> column_update s (column_update s' t) = column_update s t"
  by (simp add: column_update_def)

lemma column_A4: "column_insert s = Inr r \<Longrightarrow> column_update s r = r"
  by (auto simp: column_update_def column_insert_def)

lemma column_K:
  "column_match s t \<Longrightarrow> column_match s' t \<Longrightarrow> column_match s t' \<Longrightarrow> column_match s' t'"
  by (simp add: column_match_def)

lemma merge_column_total: "\<exists>tbl'. merge_column c tbl = Inr tbl'"
  by (simp add: merge_column_def merge_stmt_def column_insert_def)

lemma merge_all_column_total:
  "\<exists>tbl'. merge_all column_match column_update column_insert cols tbl = Inr tbl'"
proof (induction cols arbitrary: tbl)
  case Nil
  show ?case by simp
next
  case (Cons c cols)
  obtain t1 where "merge_column c tbl = Inr t1" using merge_column_total by blast
  with Cons [of t1] show ?case by (simp add: merge_column_def)
qed

lemma upsert_columns_eq:
  "upsert_columns cols tbl =
     (merge_all column_match column_update column_insert cols tbl, map DbExecuteColumn cols)"
proof (induction cols arbitrary: tbl)
  case Nil
  show ?case by simp
next
  case (Cons c cols)
  obtain t1 where "merge_column c tbl = Inr t1" using merge_column_total by blast
  with Cons [of t1] show ?case by (simp add: merge_column_def io_bind_def)
qed

subsection \<open>The statement of the issue upsert\<close>

lemma issue_A1: "issue_match s (issue_update s' t) = issue_match s t"
  by (simp add: issue_match_def issue_update_def split: option.splits)

lemma issue_A2: "issue_insert s = Inr r \<Longrightarrow> issue_match s r"
  by (auto simp: issue_match_def issue_insert_def split: option.splits)

lemma issue_A3: "issue_match s t \<Longrightarrow> issue_update s (issue_update s' t) = issue_update s t"
  by (simp add: issue_update_def)

lemma issue_A4: "issue_insert s = Inr r \<Longrightarrow> issue_update s r = r"
  by (auto simp: issue_update_def issue_insert_def split: option.splits)

lemma issue_K:
  "issue_match s t \<Longrightarrow> issue_match s' t \<Longrightarrow> issue_match s t' \<Longrightarrow> issue_match s' t'"
  by (auto simp: issue_match_def split: option.splits)

lemma issue_rows_exist:
  "\<exists>rows. list_all2 (\<lambda>it r. issue_params p cfg s2c it = Inr r) issues rows"
proof (induction issues)
  case Nil
  show ?case by simp
next
  case (Cons it issues)
  then obtain rows where "list_all2 (\<lambda>it r. issue_params p cfg s2c it = Inr r) issues rows" by blast
  moreover obtain r where "issue_params p cfg s2c it = Inr r" using issue_params_total by blast
  ultimately have "list_all2 (\<lambda>it r. issue_params p cfg s2c it = Inr r) (it # issues) (r # rows)"
    by simp
  then show ?case by blast
qed

lemma upsert_issues_result:
  "list_all2 (\<lambda>it r. issue_params p cfg s2c it = Inr r) issues rows \<Longrightarrow>
     fst (upsert_issues p cfg issues s2c tbl) =
       merge_all issue_match issue_update issue_insert rows tbl"
proof (induction issues rows arbitrary: tbl rule: list_all2_induct)
  case Nil
  show ?case by simp
next
  case (Cons it issues r rows)
  show ?case
  proof (cases "merge_issue r tbl")
    case (Inl e)
    with Cons.hyps(1) show ?thesis by (simp add: io_bind_def io_check_def merge_issue_def)
  next
    case (Inr t1)
    obtain x1 x2 where u: "upsert_issues p cfg issues s2c t1 = (x1, x2)"
      by (cases "upsert_issues p cfg issues s2c t1")
    with Inr Cons.hyps(1) Cons.IH [of t1] show ?thesis
      by (simp add: io_bind_def io_check_def merge_issue_def)
  qed
qed

lemma upsert_issues_events:
  "list_all2 (\<lambda>it r. issue_params p cfg s2c it = Inr r) issues rows \<Longrightarrow>
   fst (upsert_issues p cfg issues s2c tbl) = Inr tbl' \<Longrightarrow>
     snd (upsert_issues p cfg issues s2c tbl) = map DbExecuteIssue rows"
proof (induction issues rows arbitrary: tbl rule: list_all2_induct)
  case Nil
  show ?case by simp
next
  case (Cons it issues r rows)
  show ?case
  proof (cases "merge_issue r tbl")
    case (Inl e)
    with Cons.hyps(1) Cons.prems show ?thesis by (simp add: io_bind_def io_check_def)
  next
    case (Inr t1)
    obtain x1 x2 where u: "upsert_issues p cfg issues s2c t1 = (x1, x2)"
      by (cases "upsert_issues p cfg issues s2c t1")
    with Inr Cons.hyps(1) Cons.prems have "fst (upsert_issues p cfg issues s2c t1) = Inr tbl'"
      by (simp add: io_bind_def io_check_def)
    from Cons.IH [OF this] u Inr Cons.hyps(1) show ?thesis
      by (simp add: io_bind_def io_check_def)
  qed
qed

lemma upsert_issues_idem:
  assumes "upsert_issues p cfg issues s2c tbl = (Inr tbl', ev)"
  shows "upsert_issues p cfg issues s2c tbl' = (Inr tbl', ev)"
proof -
  obtain rows where rows: "list_all2 (\<lambda>it r. issue_params p cfg s2c it = Inr r) issues rows"
    using issue_rows_exist by blast
  from upsert_issues_result [OF rows, of tbl] assms
  have m: "merge_all issue_match issue_update issue_insert rows tbl = Inr tbl'" by simp
  have "merge_all issue_match issue_update issue_insert rows tbl' = Inr tbl'"
    by (rule merge_all_idem [OF issue_A1 issue_A2 issue_A3 issue_A4 m])
  with upsert_issues_result [OF rows, of tbl']
  have f: "fst (upsert_issues p cfg issues s2c tbl') = Inr tbl'" by simp
  from upsert_issues_events [OF rows f] upsert_issues_events [OF rows, of tbl tbl'] assms
  have "snd (upsert_issues p cfg issues s2c tbl') = ev" by simp
  with f show ?thesis by (simp add: prod_eq_iff)
qed

lemma upsert_columns_idem:
  assumes "upsert_columns cols tbl = (Inr tbl', ev)"
  shows "upsert_columns cols tbl' = (Inr tbl', ev)"
proof -
  from assms have m: "merge_all column_match column_update column_insert cols tbl = Inr tbl'"
    and e: "ev = map DbExecuteColumn cols"
    by (simp_all add: upsert_columns_eq)
  have "merge_all column_match column_update column_insert cols tbl' = Inr tbl'"
    by (rule merge_all_idem [OF column_A1 column_A2 column_A3 column_A4 m])
  with e show ?thesis by (simp add: upsert_columns_eq)
qed

section \<open>Idempotence of the run\<close>

lemma main_write_idem:
  assumes "main_write p cfg cols issues d = (r, tr, d')"
  shows "main_write p cfg cols issues d' = (r, tr, d')"
proof (cases "sql_conn cfg")
  case (Pair c t)
  show ?thesis
  proof (cases c)
    case (Inl e)
    with Pair assms show ?thesis by (auto simp: main_write_def)
  next
    case (Inr u)
    obtain ct where ct: "upsert_columns cols (JiraBoardColumns d) = (Inr ct, map DbExecuteColumn cols)"
      using merge_all_column_total [of cols "JiraBoardColumns d"] by (auto simp: upsert_columns_eq)
    obtain ri ei where ui: "upsert_issues p cfg issues (status_to_column cols) (JiraIssuesBoard d) = (ri, ei)"
      by (cases "upsert_issues p cfg issues (status_to_column cols) (JiraIssuesBoard d)")
    show ?thesis
    proof (cases ri)
      case (Inl e)
      with Pair Inr ct ui assms have "d' = d"
        by (simp add: main_write_def io_bind_def)
      with assms show ?thesis by simp
    next
      case it: (Inr it)
      with Pair Inr ct ui assms have
        d': "d' = \<lparr> JiraBoardColumns = ct, JiraIssuesBoard = it \<rparr>"
        and r: "r = Inr ()" and tr: "tr = t @ map DbExecuteColumn cols @ ei @ [DbCommit]"
        by (simp_all add: main_write_def io_bind_def)
      from upsert_columns_idem [OF ct]
      have ct2: "upsert_columns cols ct = (Inr ct, map DbExecuteColumn cols)" .
      from ui it upsert_issues_idem [of p cfg issues "status_to_column cols" "JiraIssuesBoard d" it ei]
      have it2: "upsert_issues p cfg issues (status_to_column cols) it = (Inr it, ei)" by simp
      from Pair Inr ct2 it2 show ?thesis
        by (simp add: main_write_def io_bind_def d' r tr)
    qed
  qed
qed

text \<open>
  C3. A run that ends, with whatever result, leaves tables on which a second run against
  the same configuration and the same upstream data ends with the same result and the
  same events and leaves the tables as the first run left them.
\<close>

theorem main_idempotent:
  assumes "main p cfg srv d = Some (r, tr, d')"
  shows "main p cfg srv d' = Some (r, tr, d')"
proof (cases "main_check cfg")
  case (Inl e)
  with assms show ?thesis by (auto simp: main_def)
next
  case chk: (Inr u)
  obtain rc t1 where gc: "get_board_columns cfg srv = (rc, t1)"
    by (cases "get_board_columns cfg srv")
  show ?thesis
  proof (cases rc)
    case (Inl e)
    with chk gc assms show ?thesis by (auto simp: main_def)
  next
    case cols: (Inr cols)
    show ?thesis
    proof (cases "get_board_issues cfg srv")
      case None
      with chk gc cols assms show ?thesis by (simp add: main_def)
    next
      case (Some y)
      obtain ri t2 where y: "y = (ri, t2)" by (cases y)
      show ?thesis
      proof (cases ri)
        case (Inl e)
        with chk gc cols Some y assms show ?thesis by (auto simp: main_def)
      next
        case issues: (Inr issues)
        obtain rw t3 dw where w: "main_write p cfg cols issues d = (rw, t3, dw)"
          by (cases "main_write p cfg cols issues d") auto
        with chk gc cols Some y issues assms have "dw = d'"
          by (auto simp: main_def split: sum.splits)
        with w main_write_idem [of p cfg cols issues d rw t3 d']
        have "main_write p cfg cols issues d' = main_write p cfg cols issues d" by simp
        with chk gc cols Some y issues assms show ?thesis
          by (simp add: main_def)
      qed
    qed
  qed
qed

lemma tiny_run:
  "main sample_fromisoformat sample_config tiny_jira sample_db =
     Some (Inr 2, tiny_trace, tiny_db)"
  by code_simp

theorem main_idempotent_witness:
  "main sample_fromisoformat sample_config tiny_jira sample_db =
     Some (Inr 2, tiny_trace, tiny_db) \<and>
   main sample_fromisoformat sample_config tiny_jira tiny_db =
     Some (Inr 2, tiny_trace, tiny_db) \<and>
   tiny_db \<noteq> sample_db"
proof -
  have "tiny_db \<noteq> sample_db"
    by (simp add: tiny_db_def sample_db_def)
  with main_idempotent [OF tiny_run] tiny_run show ?thesis
    by simp
qed

section \<open>Updates in place\<close>

lemma merge_stmt_unique:
  assumes i: "i < length tbl" and m: "on s (tbl ! i)"
    and u: "\<And>j. j < length tbl \<Longrightarrow> j \<noteq> i \<Longrightarrow> \<not> on s (tbl ! j)"
  shows "merge_stmt on upd ins s tbl = Inr (tbl[i := upd s (tbl ! i)])"
proof -
  from i m have "list_ex (on s) tbl" by (auto simp: list_ex_iff)
  moreover have "map (\<lambda>t. if on s t then upd s t else t) tbl = tbl[i := upd s (tbl ! i)]"
  proof (rule nth_equalityI)
    show "length (map (\<lambda>t. if on s t then upd s t else t) tbl) = length (tbl[i := upd s (tbl ! i)])"
      by simp
  next
    fix j assume "j < length (map (\<lambda>t. if on s t then upd s t else t) tbl)"
    then have j: "j < length tbl" by simp
    show "map (\<lambda>t. if on s t then upd s t else t) tbl ! j = tbl[i := upd s (tbl ! i)] ! j"
    proof (cases "j = i")
      case True
      with i m show ?thesis by simp
    next
      case False
      with j u [OF j False] show ?thesis by simp
    qed
  qed
  ultimately show ?thesis by (simp add: merge_stmt_def)
qed

lemma merge_all_nth:
  assumes "merge_all on upd ins ss tbl = Inr tbl'" and "i < length tbl"
  shows "tbl' ! i = update_all on upd ss (tbl ! i)"
proof -
  from merge_all_prefix [OF assms(1)]
  have "take (length tbl) tbl' = map (update_all on upd ss) tbl" by simp
  then have "take (length tbl) tbl' ! i = map (update_all on upd ss) tbl ! i" by simp
  with assms(2) show ?thesis by simp
qed

lemma column_update_all_key:
  "BoardId (update_all column_match column_update cols t) = BoardId t \<and>
   StatusId (update_all column_match column_update cols t) = StatusId t"
  by (induction cols arbitrary: t)
     (simp_all add: update_all_Nil update_all_Cons column_update_def)

lemma issue_update_all_key:
  "iBoardId (update_all issue_match issue_update rows t) = iBoardId t \<and>
   IssueKey (update_all issue_match issue_update rows t) = IssueKey t"
  by (induction rows arbitrary: t)
     (simp_all add: update_all_Nil update_all_Cons issue_update_def)

lemma upsert_columns_in_place:
  assumes run: "upsert_columns cols tbl = (Inr tbl', ev)" and i: "i < length tbl"
  shows "length tbl \<le> length tbl'"
    and "BoardId (tbl' ! i) = BoardId (tbl ! i)" and "StatusId (tbl' ! i) = StatusId (tbl ! i)"
    and "(\<And>c. c \<in> set cols \<Longrightarrow> \<not> column_match c (tbl ! i)) \<Longrightarrow> tbl' ! i = tbl ! i"
    and "cols = xs @ c # ys \<Longrightarrow> column_match c (tbl ! i) \<Longrightarrow>
           (\<And>c'. c' \<in> set ys \<Longrightarrow> \<not> column_match c' (tbl ! i)) \<Longrightarrow>
           tbl' ! i = column_update c (tbl ! i)"
    and "list_ex (column_match k) tbl \<Longrightarrow>
           length (filter (column_match k) tbl') = length (filter (column_match k) tbl)"
proof -
  from run have m: "merge_all column_match column_update column_insert cols tbl = Inr tbl'"
    by (simp add: upsert_columns_eq)
  note n = merge_all_nth [OF m i]
  show "length tbl \<le> length tbl'" using merge_all_prefix [OF m] by simp
  show "BoardId (tbl' ! i) = BoardId (tbl ! i)" "StatusId (tbl' ! i) = StatusId (tbl ! i)"
    by (simp_all add: n column_update_all_key)
  show "tbl' ! i = tbl ! i" if "\<And>c. c \<in> set cols \<Longrightarrow> \<not> column_match c (tbl ! i)"
    using that by (simp add: n update_all_unmatched)
  show "tbl' ! i = column_update c (tbl ! i)"
    if "cols = xs @ c # ys" "column_match c (tbl ! i)"
       "\<And>c'. c' \<in> set ys \<Longrightarrow> \<not> column_match c' (tbl ! i)"
    using that update_all_last_wins [of column_match column_update c "tbl ! i" ys xs,
        OF column_A1 column_A3]
    by (simp add: n)
  show "length (filter (column_match k) tbl') = length (filter (column_match k) tbl)"
    if "list_ex (column_match k) tbl"
    by (rule merge_all_count [OF column_A1 column_A2 column_K m that])
qed

lemma upsert_issues_in_place:
  assumes run: "upsert_issues p cfg issues s2c tbl = (Inr tbl', ev)" and i: "i < length tbl"
    and rows: "list_all2 (\<lambda>it r. issue_params p cfg s2c it = Inr r) issues rows"
  shows "length tbl \<le> length tbl'"
    and "iBoardId (tbl' ! i) = iBoardId (tbl ! i)" and "IssueKey (tbl' ! i) = IssueKey (tbl ! i)"
    and "(\<And>r. r \<in> set rows \<Longrightarrow> \<not> issue_match r (tbl ! i)) \<Longrightarrow> tbl' ! i = tbl ! i"
    and "rows = xs @ r # ys \<Longrightarrow> issue_match r (tbl ! i) \<Longrightarrow>
           (\<And>r'. r' \<in> set ys \<Longrightarrow> \<not> issue_match r' (tbl ! i)) \<Longrightarrow>
           tbl' ! i = issue_update r (tbl ! i)"
    and "list_ex (issue_match k) tbl \<Longrightarrow>
           length (filter (issue_match k) tbl') = length (filter (issue_match k) tbl)"
proof -
  from run upsert_issues_result [OF rows, of tbl]
  have m: "merge_all issue_match issue_update issue_insert rows tbl = Inr tbl'"
    by simp
  note n = merge_all_nth [OF m i]
  show "length tbl \<le> length tbl'" using merge_all_prefix [OF m] by simp
  show "iBoardId (tbl' ! i) = iBoardId (tbl ! i)" "IssueKey (tbl' ! i) = IssueKey (tbl ! i)"
    by (simp_all add: n issue_update_all_key)
  show "tbl' ! i = tbl ! i" if "\<And>r. r \<in> set rows \<Longrightarrow> \<not> issue_match r (tbl ! i)"
    using that by (simp add: n update_all_unmatched)
  show "tbl' ! i = issue_update r (tbl ! i)"
    if "rows = xs @ r # ys" "issue_match r (tbl ! i)"
       "\<And>r'. r' \<in> set ys \<Longrightarrow> \<not> issue_match r' (tbl ! i)"
    using that update_all_last_wins [of issue_match issue_update r "tbl ! i" ys xs,
        OF issue_A1 issue_A3]
    by (simp add: n)
  show "length (filter (issue_match k) tbl') = length (filter (issue_match k) tbl)"
    if "list_ex (issue_match k) tbl"
    by (rule merge_all_count [OF issue_A1 issue_A2 issue_K m that])
qed

lemma merge_all_column_count:
  assumes m: "merge_all column_match column_update column_insert cols tbl = Inr tbl'"
    and ex: "list_ex (column_match k) tbl"
  shows "length (filter (column_match k) tbl') = length (filter (column_match k) tbl)"
  by (rule merge_all_count [OF column_A1 column_A2 column_K m ex])

lemma merge_all_issue_count:
  assumes m: "merge_all issue_match issue_update issue_insert rows tbl = Inr tbl'"
    and ex: "list_ex (issue_match k) tbl"
  shows "length (filter (issue_match k) tbl') = length (filter (issue_match k) tbl)"
  by (rule merge_all_count [OF issue_A1 issue_A2 issue_K m ex])

lemma merge_all_issue_returns:
  "(\<And>r. r \<in> set rows \<Longrightarrow> IssueKey r \<noteq> None) \<Longrightarrow>
     \<exists>tbl'. merge_all issue_match issue_update issue_insert rows tbl = Inr tbl'"
proof (induction rows arbitrary: tbl)
  case Nil
  show ?case by simp
next
  case (Cons r rows)
  from Cons.prems [of r] obtain k where "IssueKey r = Some k" by auto
  then have "\<exists>t1. merge_stmt issue_match issue_update issue_insert r tbl = Inr t1"
    by (cases "list_ex (issue_match r) tbl") (simp_all add: merge_stmt_def issue_insert_def)
  then obtain t1 where "merge_stmt issue_match issue_update issue_insert r tbl = Inr t1"
    by blast
  with Cons.IH [of t1] Cons.prems show ?case by simp
qed

lemma upsert_issues_returns:
  assumes rows: "list_all2 (\<lambda>it r. issue_params p cfg s2c it = Inr r) issues rows"
    and keys: "\<And>r. r \<in> set rows \<Longrightarrow> IssueKey r \<noteq> None"
  shows "\<exists>tbl'. upsert_issues p cfg issues s2c tbl = (Inr tbl', map DbExecuteIssue rows)"
proof -
  from merge_all_issue_returns [of rows tbl] keys obtain tbl' where
    m: "merge_all issue_match issue_update issue_insert rows tbl = Inr tbl'" by blast
  with upsert_issues_result [OF rows, of tbl]
  have f: "fst (upsert_issues p cfg issues s2c tbl) = Inr tbl'" by simp
  from upsert_issues_events [OF rows f] f show ?thesis by (auto simp: prod_eq_iff)
qed

lemma upsert_issues_run_events:
  assumes rows: "list_all2 (\<lambda>it r. issue_params p cfg s2c it = Inr r) issues rows"
    and run: "upsert_issues p cfg issues s2c tbl = (Inr tbl', ev)"
  shows "ev = map DbExecuteIssue rows"
  using upsert_issues_events [OF rows, of tbl tbl'] run by simp

lemma renamed_issue_row:
  "issue_params sample_fromisoformat sample_config
     (status_to_column (column_records sample_config sample_board)) renamed_issue =
   Inr changed_issue"
  by code_simp

lemma renamed_issue_upsert:
  "upsert_issues sample_fromisoformat sample_config [renamed_issue]
     (status_to_column (column_records sample_config sample_board)) (JiraIssuesBoard tiny_db) =
   (Inr [JiraIssuesBoard tiny_db ! 0, changed_issue], [DbExecuteIssue changed_issue])"
  by code_simp

text \<open>
  C6. When exactly one row of the table has the key of the source row, the statement of
  either upsert returns the table with that one row updated at its place: the length is
  the same and every other row is as before. The column upsert always returns, with one
  statement per column record. The issue upsert builds one row from each input issue
  (\<open>issue_params\<close>); when each of these rows has an issue key it returns, with one
  statement per row in the order of the issues. For a whole upsert that succeeds, the
  statements are those of the rows built from the input, the rows the table held keep their
  places and their keys, and the number of rows with a key the table already held stays the
  same (no duplicate); a row that no source row matches is unchanged, and a row that source
  rows match carries the values of the last of them.
\<close>

theorem upsert_updates_in_place:
  "(\<forall>i<length tbl. column_match c (tbl ! i) \<and>
        (\<forall>j<length tbl. j \<noteq> i \<longrightarrow> \<not> column_match c (tbl ! j)) \<longrightarrow>
      merge_column c tbl = Inr (tbl[i := column_update c (tbl ! i)])) \<and>
   (\<forall>i<length itbl. issue_match r (itbl ! i) \<and>
        (\<forall>j<length itbl. j \<noteq> i \<longrightarrow> \<not> issue_match r (itbl ! j)) \<longrightarrow>
      merge_issue r itbl = Inr (itbl[i := issue_update r (itbl ! i)])) \<and>
   (\<forall>tbl' ev. upsert_columns cols tbl = (Inr tbl', ev) \<longrightarrow>
      length tbl \<le> length tbl' \<and>
      (\<forall>k. list_ex (column_match k) tbl \<longrightarrow>
         length (filter (column_match k) tbl') = length (filter (column_match k) tbl)) \<and>
      (\<forall>i<length tbl.
         BoardId (tbl' ! i) = BoardId (tbl ! i) \<and> StatusId (tbl' ! i) = StatusId (tbl ! i) \<and>
         ((\<forall>c'\<in>set cols. \<not> column_match c' (tbl ! i)) \<longrightarrow> tbl' ! i = tbl ! i) \<and>
         (\<forall>xs c' ys. cols = xs @ c' # ys \<and> column_match c' (tbl ! i) \<and>
              (\<forall>c''\<in>set ys. \<not> column_match c'' (tbl ! i)) \<longrightarrow>
            tbl' ! i = column_update c' (tbl ! i)))) \<and>
   (\<exists>tbl'. upsert_columns cols tbl = (Inr tbl', map DbExecuteColumn cols)) \<and>
   (\<exists>rows. list_all2 (\<lambda>it r. issue_params p cfg s2c it = Inr r) issues rows \<and>
      ((\<forall>r'\<in>set rows. IssueKey r' \<noteq> None) \<longrightarrow>
         (\<exists>tbl'. upsert_issues p cfg issues s2c itbl = (Inr tbl', map DbExecuteIssue rows))) \<and>
      (\<forall>tbl' ev. upsert_issues p cfg issues s2c itbl = (Inr tbl', ev) \<longrightarrow>
         ev = map DbExecuteIssue rows \<and>
         length itbl \<le> length tbl' \<and>
         (\<forall>k. list_ex (issue_match k) itbl \<longrightarrow>
            length (filter (issue_match k) tbl') = length (filter (issue_match k) itbl)) \<and>
         (\<forall>i<length itbl.
            iBoardId (tbl' ! i) = iBoardId (itbl ! i) \<and> IssueKey (tbl' ! i) = IssueKey (itbl ! i) \<and>
            ((\<forall>r'\<in>set rows. \<not> issue_match r' (itbl ! i)) \<longrightarrow> tbl' ! i = itbl ! i) \<and>
            (\<forall>xs r' ys. rows = xs @ r' # ys \<and> issue_match r' (itbl ! i) \<and>
                 (\<forall>r''\<in>set ys. \<not> issue_match r'' (itbl ! i)) \<longrightarrow>
               tbl' ! i = issue_update r' (itbl ! i)))))"
proof (intro conjI)
  show "\<forall>i<length tbl. column_match c (tbl ! i) \<and>
        (\<forall>j<length tbl. j \<noteq> i \<longrightarrow> \<not> column_match c (tbl ! j)) \<longrightarrow>
      merge_column c tbl = Inr (tbl[i := column_update c (tbl ! i)])"
    unfolding merge_column_def by (intro allI impI merge_stmt_unique) auto
  show "\<forall>i<length itbl. issue_match r (itbl ! i) \<and>
        (\<forall>j<length itbl. j \<noteq> i \<longrightarrow> \<not> issue_match r (itbl ! j)) \<longrightarrow>
      merge_issue r itbl = Inr (itbl[i := issue_update r (itbl ! i)])"
    unfolding merge_issue_def by (intro allI impI merge_stmt_unique) auto
  show "\<forall>tbl' ev. upsert_columns cols tbl = (Inr tbl', ev) \<longrightarrow>
      length tbl \<le> length tbl' \<and>
      (\<forall>k. list_ex (column_match k) tbl \<longrightarrow>
         length (filter (column_match k) tbl') = length (filter (column_match k) tbl)) \<and>
      (\<forall>i<length tbl.
         BoardId (tbl' ! i) = BoardId (tbl ! i) \<and> StatusId (tbl' ! i) = StatusId (tbl ! i) \<and>
         ((\<forall>c'\<in>set cols. \<not> column_match c' (tbl ! i)) \<longrightarrow> tbl' ! i = tbl ! i) \<and>
         (\<forall>xs c' ys. cols = xs @ c' # ys \<and> column_match c' (tbl ! i) \<and>
              (\<forall>c''\<in>set ys. \<not> column_match c'' (tbl ! i)) \<longrightarrow>
            tbl' ! i = column_update c' (tbl ! i)))"
  proof (intro allI impI)
    fix tbl' ev assume run: "upsert_columns cols tbl = (Inr tbl', ev)"
    note f = upsert_columns_in_place [OF run]
    show "length tbl \<le> length tbl' \<and>
      (\<forall>k. list_ex (column_match k) tbl \<longrightarrow>
         length (filter (column_match k) tbl') = length (filter (column_match k) tbl)) \<and>
      (\<forall>i<length tbl.
         BoardId (tbl' ! i) = BoardId (tbl ! i) \<and> StatusId (tbl' ! i) = StatusId (tbl ! i) \<and>
         ((\<forall>c'\<in>set cols. \<not> column_match c' (tbl ! i)) \<longrightarrow> tbl' ! i = tbl ! i) \<and>
         (\<forall>xs c' ys. cols = xs @ c' # ys \<and> column_match c' (tbl ! i) \<and>
              (\<forall>c''\<in>set ys. \<not> column_match c'' (tbl ! i)) \<longrightarrow>
            tbl' ! i = column_update c' (tbl ! i)))"
    proof (intro conjI allI impI)
      show "length tbl \<le> length tbl'"
        using merge_all_prefix [of column_match column_update column_insert cols tbl tbl'] run
        by (simp add: upsert_columns_eq)
    next
      fix k assume "list_ex (column_match k) tbl"
      then show "length (filter (column_match k) tbl') = length (filter (column_match k) tbl)"
        using merge_all_column_count [of cols tbl tbl' k] run
        by (simp add: upsert_columns_eq)
    next
      fix i assume "i < length tbl"
      then show "BoardId (tbl' ! i) = BoardId (tbl ! i)" by (rule f(2))
    next
      fix i assume "i < length tbl"
      then show "StatusId (tbl' ! i) = StatusId (tbl ! i)" by (rule f(3))
    next
      fix i assume "i < length tbl" "\<forall>c'\<in>set cols. \<not> column_match c' (tbl ! i)"
      then show "tbl' ! i = tbl ! i" using f(4) [of i] by blast
    next
      fix i xs c' ys
      assume "i < length tbl" and "cols = xs @ c' # ys \<and> column_match c' (tbl ! i) \<and>
              (\<forall>c''\<in>set ys. \<not> column_match c'' (tbl ! i))"
      then show "tbl' ! i = column_update c' (tbl ! i)" using f(5) [of i xs c' ys] by blast
    qed
  qed
  show "\<exists>tbl'. upsert_columns cols tbl = (Inr tbl', map DbExecuteColumn cols)"
    using merge_all_column_total [of cols tbl] by (simp add: upsert_columns_eq)
  obtain rows where rows: "list_all2 (\<lambda>it r. issue_params p cfg s2c it = Inr r) issues rows"
    using issue_rows_exist by blast
  have ret: "\<exists>tbl'. upsert_issues p cfg issues s2c itbl = (Inr tbl', map DbExecuteIssue rows)"
    if "\<forall>r'\<in>set rows. IssueKey r' \<noteq> None"
    using that by (intro upsert_issues_returns [OF rows]) blast
  have res: "ev = map DbExecuteIssue rows \<and>
         length itbl \<le> length tbl' \<and>
         (\<forall>k. list_ex (issue_match k) itbl \<longrightarrow>
            length (filter (issue_match k) tbl') = length (filter (issue_match k) itbl)) \<and>
         (\<forall>i<length itbl.
            iBoardId (tbl' ! i) = iBoardId (itbl ! i) \<and> IssueKey (tbl' ! i) = IssueKey (itbl ! i) \<and>
            ((\<forall>r'\<in>set rows. \<not> issue_match r' (itbl ! i)) \<longrightarrow> tbl' ! i = itbl ! i) \<and>
            (\<forall>xs r' ys. rows = xs @ r' # ys \<and> issue_match r' (itbl ! i) \<and>
                 (\<forall>r''\<in>set ys. \<not> issue_match r'' (itbl ! i)) \<longrightarrow>
               tbl' ! i = issue_update r' (itbl ! i)))"
    if run: "upsert_issues p cfg issues s2c itbl = (Inr tbl', ev)" for tbl' ev
  proof -
    from run upsert_issues_result [OF rows, of itbl]
    have m: "merge_all issue_match issue_update issue_insert rows itbl = Inr tbl'" by simp
    show ?thesis
    proof (intro conjI allI impI)
      show "ev = map DbExecuteIssue rows" by (rule upsert_issues_run_events [OF rows run])
    next
      show "length itbl \<le> length tbl'" using merge_all_prefix [OF m] by simp
    next
      fix k assume "list_ex (issue_match k) itbl"
      then show "length (filter (issue_match k) tbl') = length (filter (issue_match k) itbl)"
        using merge_all_issue_count [OF m] by blast
    next
      fix i assume "i < length itbl"
      from upsert_issues_in_place(2) [OF run this rows]
      show "iBoardId (tbl' ! i) = iBoardId (itbl ! i)" .
    next
      fix i assume "i < length itbl"
      from upsert_issues_in_place(3) [OF run this rows]
      show "IssueKey (tbl' ! i) = IssueKey (itbl ! i)" .
    next
      fix i assume i: "i < length itbl" and "\<forall>r'\<in>set rows. \<not> issue_match r' (itbl ! i)"
      then show "tbl' ! i = itbl ! i" using upsert_issues_in_place(4) [OF run i rows] by blast
    next
      fix i xs r' ys
      assume i: "i < length itbl" and "rows = xs @ r' # ys \<and> issue_match r' (itbl ! i) \<and>
              (\<forall>r''\<in>set ys. \<not> issue_match r'' (itbl ! i))"
      then show "tbl' ! i = issue_update r' (itbl ! i)"
        using upsert_issues_in_place(5) [OF run i rows, of xs r' ys] by blast
    qed
  qed
  from rows ret res
  show "\<exists>rows. list_all2 (\<lambda>it r. issue_params p cfg s2c it = Inr r) issues rows \<and>
      ((\<forall>r'\<in>set rows. IssueKey r' \<noteq> None) \<longrightarrow>
         (\<exists>tbl'. upsert_issues p cfg issues s2c itbl = (Inr tbl', map DbExecuteIssue rows))) \<and>
      (\<forall>tbl' ev. upsert_issues p cfg issues s2c itbl = (Inr tbl', ev) \<longrightarrow>
         ev = map DbExecuteIssue rows \<and>
         length itbl \<le> length tbl' \<and>
         (\<forall>k. list_ex (issue_match k) itbl \<longrightarrow>
            length (filter (issue_match k) tbl') = length (filter (issue_match k) itbl)) \<and>
         (\<forall>i<length itbl.
            iBoardId (tbl' ! i) = iBoardId (itbl ! i) \<and> IssueKey (tbl' ! i) = IssueKey (itbl ! i) \<and>
            ((\<forall>r'\<in>set rows. \<not> issue_match r' (itbl ! i)) \<longrightarrow> tbl' ! i = itbl ! i) \<and>
            (\<forall>xs r' ys. rows = xs @ r' # ys \<and> issue_match r' (itbl ! i) \<and>
                 (\<forall>r''\<in>set ys. \<not> issue_match r'' (itbl ! i)) \<longrightarrow>
               tbl' ! i = issue_update r' (itbl ! i))))"
    by (intro exI [of _ rows]) blast
qed

theorem upsert_updates_in_place_witness:
  "column_match changed_column (JiraBoardColumns tiny_db ! 1) \<and>
   merge_column changed_column (JiraBoardColumns tiny_db) =
     Inr [JiraBoardColumns tiny_db ! 0, changed_column] \<and>
   issue_match changed_issue (JiraIssuesBoard tiny_db ! 1) \<and>
   merge_issue changed_issue (JiraIssuesBoard tiny_db) =
     Inr [JiraIssuesBoard tiny_db ! 0, changed_issue] \<and>
   upsert_columns [changed_column] (JiraBoardColumns tiny_db) =
     (Inr [JiraBoardColumns tiny_db ! 0, changed_column], [DbExecuteColumn changed_column]) \<and>
   length (filter (column_match changed_column) [JiraBoardColumns tiny_db ! 0, changed_column]) =
     length (filter (column_match changed_column) (JiraBoardColumns tiny_db)) \<and>
   issue_params sample_fromisoformat sample_config
     (status_to_column (column_records sample_config sample_board)) renamed_issue =
     Inr changed_issue \<and>
   upsert_issues sample_fromisoformat sample_config [renamed_issue]
     (status_to_column (column_records sample_config sample_board)) (JiraIssuesBoard tiny_db) =
     (Inr [JiraIssuesBoard tiny_db ! 0, changed_issue], [DbExecuteIssue changed_issue]) \<and>
   [JiraIssuesBoard tiny_db ! 0, changed_issue] ! 1 =
     issue_update changed_issue (JiraIssuesBoard tiny_db ! 1) \<and>
   length (filter (issue_match changed_issue) [JiraIssuesBoard tiny_db ! 0, changed_issue]) =
     length (filter (issue_match changed_issue) (JiraIssuesBoard tiny_db)) \<and>
   JiraIssuesBoard tiny_db ! 1 \<noteq> changed_issue"
proof -
  let ?s2c = "status_to_column (column_records sample_config sample_board)"
  note t = upsert_updates_in_place [where tbl = "JiraBoardColumns tiny_db" and c = changed_column
      and itbl = "JiraIssuesBoard tiny_db" and r = changed_issue and cols = "[changed_column]"
      and p = sample_fromisoformat and cfg = sample_config and issues = "[renamed_issue]"
      and ?s2c = ?s2c]
  note t1 = t [THEN conjunct1, rule_format, of 1]
  note t2 = t [THEN conjunct2, THEN conjunct1, rule_format, of 1]
  note t3 = t [THEN conjunct2, THEN conjunct2, THEN conjunct1, rule_format, THEN conjunct2,
      THEN conjunct1, rule_format]
  note t5 = t [THEN conjunct2, THEN conjunct2, THEN conjunct2, THEN conjunct2]
  have lc: "1 < length (JiraBoardColumns tiny_db)" and li: "1 < length (JiraIssuesBoard tiny_db)"
    by (simp_all add: tiny_db_def)
  have c0: "JiraBoardColumns tiny_db =
      [\<lparr> BoardId = 2, ColumnName = Some ''To Do'', StatusId = ''1'', StatusName = Some ''Open'' \<rparr>,
       \<lparr> BoardId = 2, ColumnName = Some ''Done'', StatusId = ''3'', StatusName = Some ''Closed'' \<rparr>]"
    by (simp add: tiny_db_def)
  have mc: "column_match changed_column (JiraBoardColumns tiny_db ! 1)"
    by (simp add: c0 changed_column_def column_match_def)
  have uc: "\<not> column_match changed_column (JiraBoardColumns tiny_db ! j)"
    if "j < length (JiraBoardColumns tiny_db)" "j \<noteq> 1" for j
  proof -
    from that have "j = 0" by (simp add: c0)
    then show ?thesis by (simp add: c0 changed_column_def column_match_def)
  qed
  have mi: "issue_match changed_issue (JiraIssuesBoard tiny_db ! 1)"
    by (simp add: tiny_db_def changed_issue_def issue_match_def)
  have ui: "\<not> issue_match changed_issue (JiraIssuesBoard tiny_db ! j)"
    if "j < length (JiraIssuesBoard tiny_db)" "j \<noteq> 1" for j
  proof -
    from that have "j = 0" by (simp add: tiny_db_def)
    then show ?thesis by (simp add: tiny_db_def changed_issue_def issue_match_def)
  qed
  have ne: "JiraIssuesBoard tiny_db ! 1 \<noteq> changed_issue"
    by (simp add: tiny_db_def changed_issue_def)
  from t1 [OF lc] mc uc have "merge_column changed_column (JiraBoardColumns tiny_db) =
      Inr ((JiraBoardColumns tiny_db)[1 := column_update changed_column (JiraBoardColumns tiny_db ! 1)])"
    by blast
  then have c: "merge_column changed_column (JiraBoardColumns tiny_db) =
     Inr [JiraBoardColumns tiny_db ! 0, changed_column]"
    by (simp add: c0 changed_column_def column_update_def)
  from t2 [OF li] mi ui have "merge_issue changed_issue (JiraIssuesBoard tiny_db) =
      Inr ((JiraIssuesBoard tiny_db)[1 := issue_update changed_issue (JiraIssuesBoard tiny_db ! 1)])"
    by blast
  then have i: "merge_issue changed_issue (JiraIssuesBoard tiny_db) =
     Inr [JiraIssuesBoard tiny_db ! 0, changed_issue]"
    by (simp add: tiny_db_def changed_issue_def issue_update_def)
  from c have u: "upsert_columns [changed_column] (JiraBoardColumns tiny_db) =
     (Inr [JiraBoardColumns tiny_db ! 0, changed_column], [DbExecuteColumn changed_column])"
    by (simp add: io_bind_def)
  from mc lc have "list_ex (column_match changed_column) (JiraBoardColumns tiny_db)"
    by (auto simp: list_ex_iff)
  from t3 [OF u this]
  have n: "length (filter (column_match changed_column) [JiraBoardColumns tiny_db ! 0, changed_column]) =
     length (filter (column_match changed_column) (JiraBoardColumns tiny_db))" .
  from t5 obtain rows where
    rows: "list_all2 (\<lambda>it r. issue_params sample_fromisoformat sample_config ?s2c it = Inr r)
             [renamed_issue] rows"
    and res: "\<And>tbl' ev. upsert_issues sample_fromisoformat sample_config [renamed_issue] ?s2c
                 (JiraIssuesBoard tiny_db) = (Inr tbl', ev) \<Longrightarrow>
         ev = map DbExecuteIssue rows \<and>
         length (JiraIssuesBoard tiny_db) \<le> length tbl' \<and>
         (\<forall>k. list_ex (issue_match k) (JiraIssuesBoard tiny_db) \<longrightarrow>
            length (filter (issue_match k) tbl') =
              length (filter (issue_match k) (JiraIssuesBoard tiny_db))) \<and>
         (\<forall>i<length (JiraIssuesBoard tiny_db).
            iBoardId (tbl' ! i) = iBoardId (JiraIssuesBoard tiny_db ! i) \<and>
            IssueKey (tbl' ! i) = IssueKey (JiraIssuesBoard tiny_db ! i) \<and>
            ((\<forall>r'\<in>set rows. \<not> issue_match r' (JiraIssuesBoard tiny_db ! i)) \<longrightarrow>
               tbl' ! i = JiraIssuesBoard tiny_db ! i) \<and>
            (\<forall>xs r' ys. rows = xs @ r' # ys \<and> issue_match r' (JiraIssuesBoard tiny_db ! i) \<and>
                 (\<forall>r''\<in>set ys. \<not> issue_match r'' (JiraIssuesBoard tiny_db ! i)) \<longrightarrow>
               tbl' ! i = issue_update r' (JiraIssuesBoard tiny_db ! i)))"
    by blast
  from rows renamed_issue_row have r1: "rows = [changed_issue]"
    by (cases rows) (simp_all add: list_all2_Cons1)
  note rr = res [OF renamed_issue_upsert]
  from mi li have exi: "list_ex (issue_match changed_issue) (JiraIssuesBoard tiny_db)"
    by (auto simp: list_ex_iff)
  from rr have cnt: "\<forall>k. list_ex (issue_match k) (JiraIssuesBoard tiny_db) \<longrightarrow>
            length (filter (issue_match k) [JiraIssuesBoard tiny_db ! 0, changed_issue]) =
              length (filter (issue_match k) (JiraIssuesBoard tiny_db))"
    by blast
  with exi have ni: "length (filter (issue_match changed_issue) [JiraIssuesBoard tiny_db ! 0, changed_issue]) =
     length (filter (issue_match changed_issue) (JiraIssuesBoard tiny_db))" by blast
  from rr li have "\<forall>xs r' ys. rows = xs @ r' # ys \<and> issue_match r' (JiraIssuesBoard tiny_db ! 1) \<and>
                 (\<forall>r''\<in>set ys. \<not> issue_match r'' (JiraIssuesBoard tiny_db ! 1)) \<longrightarrow>
               [JiraIssuesBoard tiny_db ! 0, changed_issue] ! 1 =
                 issue_update r' (JiraIssuesBoard tiny_db ! 1)"
    by blast
  from this [rule_format, of "[]" changed_issue "[]"] r1 mi
  have up: "[JiraIssuesBoard tiny_db ! 0, changed_issue] ! 1 =
     issue_update changed_issue (JiraIssuesBoard tiny_db ! 1)" by simp
  from mc c mi i u n renamed_issue_row renamed_issue_upsert up ni ne show ?thesis by blast
qed

section \<open>The column of an issue\<close>

lemma fold_status_other:
  "(\<And>c. c \<in> set cols \<Longrightarrow> StatusId c \<noteq> k) \<Longrightarrow>
     fold (\<lambda>c m. m(StatusId c \<mapsto> ColumnName c)) cols m k = m k"
  by (induction cols arbitrary: m) auto

lemma status_to_column_absent:
  "(\<And>c. c \<in> set cols \<Longrightarrow> StatusId c \<noteq> k) \<Longrightarrow> status_to_column cols k = None"
  by (simp add: status_to_column_def fold_status_other)

lemma status_to_column_last:
  assumes "\<And>c'. c' \<in> set ys \<Longrightarrow> StatusId c' \<noteq> StatusId c"
  shows "status_to_column (xs @ c # ys) (StatusId c) = Some (ColumnName c)"
  using assms by (simp add: status_to_column_def fold_status_other)

lemma status_to_column_Some:
  assumes "status_to_column cols k = Some v"
  shows "\<exists>xs c ys. cols = xs @ c # ys \<and> StatusId c = k \<and> ColumnName c = v \<and>
           (\<forall>c'\<in>set ys. StatusId c' \<noteq> k)"
proof (cases "\<exists>c\<in>set cols. StatusId c = k")
  case True
  from split_list_last_prop [OF this] obtain xs c ys where
    s: "cols = xs @ c # ys" "StatusId c = k" "\<forall>z\<in>set ys. StatusId z \<noteq> k"
    by blast
  with status_to_column_last [of ys c xs] assms have "ColumnName c = v" by simp
  with s show ?thesis by blast
next
  case False
  then have "status_to_column cols k = None" by (intro status_to_column_absent) blast
  with assms show ?thesis by simp
qed

lemma issue_params_row:
  assumes "issue_params p cfg s2c it = Inr row"
  shows "iBoardId row = BOARD_ID cfg"
    and "IssueKey row = issue_key it"
    and "iStatusId row =
           (case issue_fields it of
              None \<Rightarrow> None
            | Some f \<Rightarrow>
               (case status f of
                  None \<Rightarrow> None
                | Some st \<Rightarrow>
                   (case status_id st of None \<Rightarrow> None | Some i \<Rightarrow> Some (str_id (Some i)))))"
    and "iColumnName row = dict_get s2c (iStatusId row)"
  using assms
  by (auto simp: issue_params_def Let_def split: sum.splits option.splits)

text \<open>
  C7. The row of every issue is built without error; its status id is the \<^verbatim>\<open>str\<close> of
  the issue's status id (null when the issue has none), and its column name is what the
  mapping built from the column records holds for that status id. A status id that no
  record carries gives a null column name. When the records carry the status id more than
  once, the column name is that of the last such record.
\<close>

theorem issue_column_lookup:
  "\<exists>row. issue_params p cfg (status_to_column cols) it = Inr row \<and>
     iStatusId row =
       (case issue_fields it of
          None \<Rightarrow> None
        | Some f \<Rightarrow>
           (case status f of
              None \<Rightarrow> None
            | Some st \<Rightarrow>
               (case status_id st of None \<Rightarrow> None | Some i \<Rightarrow> Some (str_id (Some i))))) \<and>
     iColumnName row = dict_get (status_to_column cols) (iStatusId row) \<and>
     ((\<forall>c\<in>set cols. Some (StatusId c) \<noteq> iStatusId row) \<longrightarrow> iColumnName row = None) \<and>
     (\<forall>xs c ys. cols = xs @ c # ys \<and> iStatusId row = Some (StatusId c) \<and>
          (\<forall>c'\<in>set ys. StatusId c' \<noteq> StatusId c) \<longrightarrow>
        iColumnName row = ColumnName c)"
proof -
  obtain row where row: "issue_params p cfg (status_to_column cols) it = Inr row"
    using issue_params_total by blast
  note r = issue_params_row [OF row]
  have a: "iColumnName row = None" if "\<forall>c\<in>set cols. Some (StatusId c) \<noteq> iStatusId row"
  proof (cases "iStatusId row")
    case None
    then show ?thesis by (simp add: r(4) dict_get_def)
  next
    case (Some k)
    with that have "status_to_column cols k = None"
      by (intro status_to_column_absent) auto
    with Some show ?thesis by (simp add: r(4) dict_get_def)
  qed
  have b: "iColumnName row = ColumnName c"
    if "cols = xs @ c # ys \<and> iStatusId row = Some (StatusId c) \<and>
          (\<forall>c'\<in>set ys. StatusId c' \<noteq> StatusId c)" for xs c ys
    using that status_to_column_last [of ys c xs] by (simp add: r(4) dict_get_def)
  from row r(3,4) a b show ?thesis by blast
qed

lemma split_board_records:
  "column_records sample_config split_board =
     [\<lparr> BoardId = 2, ColumnName = Some ''Doing'', StatusId = ''3'', StatusName = Some ''Closed'' \<rparr>,
      \<lparr> BoardId = 2, ColumnName = Some ''Done'', StatusId = ''3'', StatusName = Some ''Closed'' \<rparr>]"
  by code_simp

theorem issue_column_lookup_witness:
  "(\<exists>row. issue_params sample_fromisoformat sample_config
             (status_to_column (column_records sample_config split_board)) (sample_issue 0) = Inr row \<and>
          iStatusId row = Some ''3'' \<and> iColumnName row = Some ''Done'') \<and>
   (\<exists>row. issue_params sample_fromisoformat sample_config
             (status_to_column (column_records sample_config split_board)) (sample_issue 1) = Inr row \<and>
          iStatusId row = Some ''99'' \<and> iColumnName row = None)"
proof
  let ?c1 = "\<lparr> BoardId = 2, ColumnName = Some ''Doing'', StatusId = ''3'', StatusName = Some ''Closed'' \<rparr>"
  let ?c2 = "\<lparr> BoardId = 2, ColumnName = Some ''Done'', StatusId = ''3'', StatusName = Some ''Closed'' \<rparr>"
  from issue_column_lookup [of sample_fromisoformat sample_config
        "column_records sample_config split_board" "sample_issue 0"]
  obtain row where
    r: "issue_params sample_fromisoformat sample_config
         (status_to_column (column_records sample_config split_board)) (sample_issue 0) = Inr row"
    and s: "iStatusId row =
       (case issue_fields (sample_issue 0) of
          None \<Rightarrow> None
        | Some f \<Rightarrow>
           (case status f of
              None \<Rightarrow> None
            | Some st \<Rightarrow>
               (case status_id st of None \<Rightarrow> None | Some i \<Rightarrow> Some (str_id (Some i)))))"
    and l: "\<forall>xs c ys. column_records sample_config split_board = xs @ c # ys \<and>
          iStatusId row = Some (StatusId c) \<and> (\<forall>c'\<in>set ys. StatusId c' \<noteq> StatusId c) \<longrightarrow>
        iColumnName row = ColumnName c"
    by blast
  from s have s3: "iStatusId row = Some ''3''" by (simp add: sample_issue_def str_id_def)
  have "column_records sample_config split_board = [?c1] @ ?c2 # []"
    by (simp add: split_board_records)
  with l [rule_format, of "[?c1]" ?c2 "[]"] s3 have "iColumnName row = Some ''Done''" by simp
  with r s3 show "\<exists>row. issue_params sample_fromisoformat sample_config
             (status_to_column (column_records sample_config split_board)) (sample_issue 0) = Inr row \<and>
          iStatusId row = Some ''3'' \<and> iColumnName row = Some ''Done''" by blast
next
  from issue_column_lookup [of sample_fromisoformat sample_config
        "column_records sample_config split_board" "sample_issue 1"]
  obtain row where
    r: "issue_params sample_fromisoformat sample_config
         (status_to_column (column_records sample_config split_board)) (sample_issue 1) = Inr row"
    and s: "iStatusId row =
       (case issue_fields (sample_issue 1) of
          None \<Rightarrow> None
        | Some f \<Rightarrow>
           (case status f of
              None \<Rightarrow> None
            | Some st \<Rightarrow>
               (case status_id st of None \<Rightarrow> None | Some i \<Rightarrow> Some (str_id (Some i)))))"
    and a: "(\<forall>c\<in>set (column_records sample_config split_board). Some (StatusId c) \<noteq> iStatusId row)
              \<longrightarrow> iColumnName row = None"
    by blast
  from s have s99: "iStatusId row = Some ''99''" by (simp add: sample_issue_def str_id_def)
  with a have "iColumnName row = None" by (simp add: split_board_records)
  with r s99 show "\<exists>row. issue_params sample_fromisoformat sample_config
             (status_to_column (column_records sample_config split_board)) (sample_issue 1) = Inr row \<and>
          iStatusId row = Some ''99'' \<and> iColumnName row = None" by blast
qed

section \<open>The column names written\<close>

lemma jira_get_no_issue_event:
  "jira_get cfg response path params = (r, t) \<Longrightarrow> DbExecuteIssue x \<notin> set t"
  by (auto simp: jira_get_def io_bind_def io_check_def split: sum.splits prod.splits)

lemma get_board_columns_result:
  assumes "get_board_columns cfg srv = (Inr cols, t)"
  shows "DbExecuteIssue x \<notin> set t" and "c \<in> set cols \<Longrightarrow> BoardId c = BOARD_ID cfg"
proof -
  obtain r0 t0 where j: "jira_get cfg (board_configuration srv)
          (''/rest/agile/1.0/board/'' @ str_int (BOARD_ID cfg) @ ''/configuration'') [] = (r0, t0)"
    by (cases "jira_get cfg (board_configuration srv)
          (''/rest/agile/1.0/board/'' @ str_int (BOARD_ID cfg) @ ''/configuration'') []")
  with assms obtain b where b: "r0 = Inr b" "cols = column_records cfg b" "t = t0"
    by (cases r0) (auto simp: get_board_columns_def io_bind_def)
  from jira_get_no_issue_event [OF j] b show "DbExecuteIssue x \<notin> set t" by simp
  show "BoardId c = BOARD_ID cfg" if "c \<in> set cols"
    using that b(2) by (auto simp: column_records_def)
qed

lemma get_board_issues_no_issue_event:
  assumes "get_board_issues cfg srv = Some (r, t)" and "main_check cfg = Inr u"
  shows "DbExecuteIssue x \<notin> set t"
proof -
  from assms(1) have "fetch_loop cfg srv 0 [] [] = Some (r, t)"
    by (simp add: get_board_issues_def)
  from fetch_loop_trace [OF this assms(2)] obtain offs where
    "snd (r, t) = [] @ map (issue_event cfg) offs" by blast
  then show ?thesis by (auto simp: issue_event_def)
qed

lemma sql_conn_no_issue_event:
  "sql_conn cfg = (r, t) \<Longrightarrow> DbExecuteIssue x \<notin> set t"
  by (auto simp: sql_conn_def io_bind_def io_check_def Let_def split: sum.splits if_splits)

lemma upsert_issues_written:
  "DbExecuteIssue r \<in> set (snd (upsert_issues p cfg issues s2c tbl)) \<Longrightarrow>
     \<exists>it\<in>set issues. issue_params p cfg s2c it = Inr r"
proof (induction issues arbitrary: tbl)
  case Nil
  then show ?case by simp
next
  case (Cons it issues)
  obtain r0 where r0: "issue_params p cfg s2c it = Inr r0"
    using issue_params_total by blast
  show ?case
  proof (cases "merge_issue r0 tbl")
    case (Inl e)
    with Cons.prems r0 show ?thesis by (simp add: io_bind_def io_check_def)
  next
    case (Inr t1)
    obtain x1 x2 where u: "upsert_issues p cfg issues s2c t1 = (x1, x2)"
      by (cases "upsert_issues p cfg issues s2c t1")
    with Cons.prems r0 Inr have "r = r0 \<or> DbExecuteIssue r \<in> set (snd (upsert_issues p cfg issues s2c t1))"
      by (auto simp: io_bind_def io_check_def)
    with Cons.IH [of t1] r0 show ?thesis by auto
  qed
qed

lemma issue_params_column:
  assumes "issue_params p cfg (status_to_column cols) it = Inr r"
  shows "iColumnName r = None \<or>
         (\<exists>xs c ys. cols = xs @ c # ys \<and> (\<forall>c'\<in>set ys. StatusId c' \<noteq> StatusId c) \<and>
            Some (StatusId c) = iStatusId r \<and> ColumnName c = iColumnName r)"
proof (cases "iStatusId r")
  case None
  with issue_params_row(4) [OF assms] show ?thesis by (simp add: dict_get_def)
next
  case (Some k)
  show ?thesis
  proof (cases "status_to_column cols k")
    case None
    with Some issue_params_row(4) [OF assms] show ?thesis by (simp add: dict_get_def)
  next
    case v: (Some v)
    with Some issue_params_row(4) [OF assms] have "iColumnName r = v" by (simp add: dict_get_def)
    with status_to_column_Some [OF v] Some show ?thesis by auto
  qed
qed

lemma merge_all_column_last:
  assumes m: "merge_all column_match column_update column_insert (xs @ c # ys) tbl = Inr tbl'"
    and ys: "\<forall>c'\<in>set ys. StatusId c' \<noteq> StatusId c"
  shows "\<exists>t\<in>set tbl'. BoardId t = BoardId c \<and> StatusId t = StatusId c \<and>
            ColumnName t = ColumnName c"
proof -
  have "list_ex (column_match c) tbl'"
    using merge_all_makes_match [of column_match column_update column_insert "xs @ c # ys"
        tbl tbl' c, OF column_A1 column_A2 m]
    by simp
  then obtain t where t: "t \<in> set tbl'" "column_match c t" by (auto simp: list_ex_iff)
  have "update_all column_match column_update (xs @ c # ys) t = t"
    using merge_all_fixed [of column_match column_update column_insert "xs @ c # ys"
        tbl tbl' t, OF column_A1 column_A2 column_A3 column_A4 m t(1)] .
  moreover have "update_all column_match column_update (xs @ c # ys) t = column_update c t"
  proof -
    have "\<not> column_match s t" if "s \<in> set ys" for s
      using that ys t(2) by (auto simp: column_match_def)
    with update_all_last_wins [of column_match column_update c t ys xs,
        OF column_A1 column_A3 t(2)]
    show ?thesis by blast
  qed
  ultimately have "column_update c t = t" by simp
  then have "ColumnName t = ColumnName c"
    by (metis column_update_def column_row.select_convs(2) column_row.surjective
          column_row.update_convs(2) column_row.update_convs(4))
  with t show ?thesis by (auto simp: column_match_def)
qed

lemma main_write_events:
  assumes w: "main_write p cfg cols issues d = (rw, t3, dw)" and ev: "DbExecuteIssue r \<in> set t3"
  shows "\<exists>it\<in>set issues. issue_params p cfg (status_to_column cols) it = Inr r"
    and "c \<in> set cols \<Longrightarrow> DbExecuteColumn c \<in> set t3"
    and "rw = Inr () \<Longrightarrow>
           merge_all column_match column_update column_insert cols (JiraBoardColumns d) =
             Inr (JiraBoardColumns dw)"
proof -
  obtain rc t where sc: "sql_conn cfg = (rc, t)" by (cases "sql_conn cfg")
  note no = sql_conn_no_issue_event [OF sc, of r]
  obtain ct where ct: "merge_all column_match column_update column_insert cols (JiraBoardColumns d) = Inr ct"
    using merge_all_column_total by blast
  then have uc: "upsert_columns cols (JiraBoardColumns d) = (Inr ct, map DbExecuteColumn cols)"
    by (simp add: upsert_columns_eq)
  obtain ri ei where ui: "upsert_issues p cfg issues (status_to_column cols) (JiraIssuesBoard d) = (ri, ei)"
    by (cases "upsert_issues p cfg issues (status_to_column cols) (JiraIssuesBoard d)")
  have conn: "\<exists>u. rc = Inr u"
  proof (cases rc)
    case (Inl e)
    with w sc have "t3 = t" by (simp add: main_write_def)
    with ev no show ?thesis by simp
  next
    case (Inr u)
    then show ?thesis by blast
  qed
  then obtain u where rc: "rc = Inr u" by blast
  have t3: "\<exists>z. t3 = t @ map DbExecuteColumn cols @ ei @ [z] \<and> z \<noteq> DbExecuteIssue r"
    and dw: "rw = Inr () \<longrightarrow> JiraBoardColumns dw = ct"
    using w sc rc uc ui by (cases ri; simp add: main_write_def io_bind_def; fastforce)+
  from t3 ev no have "DbExecuteIssue r \<in> set ei" by auto
  with ui upsert_issues_written [of r p cfg issues "status_to_column cols" "JiraIssuesBoard d"]
  show "\<exists>it\<in>set issues. issue_params p cfg (status_to_column cols) it = Inr r" by simp
  show "DbExecuteColumn c \<in> set t3" if "c \<in> set cols"
    using that t3 by auto
  show "merge_all column_match column_update column_insert cols (JiraBoardColumns d) =
             Inr (JiraBoardColumns dw)" if "rw = Inr ()"
    using that dw ct by simp
qed

lemma get_board_columns_no_issue_event:
  assumes "get_board_columns cfg srv = (r, t)"
  shows "DbExecuteIssue x \<notin> set t"
proof -
  obtain r0 t0 where j: "jira_get cfg (board_configuration srv)
          (''/rest/agile/1.0/board/'' @ str_int (BOARD_ID cfg) @ ''/configuration'') [] = (r0, t0)"
    by (cases "jira_get cfg (board_configuration srv)
          (''/rest/agile/1.0/board/'' @ str_int (BOARD_ID cfg) @ ''/configuration'') []")
  with assms have "t = t0"
    by (cases r0) (auto simp: get_board_columns_def io_bind_def)
  with jira_get_no_issue_event [OF j] show ?thesis by simp
qed

text \<open>
  C4. In every run that ends, each issue row passed to the issue upsert carries the
  configured board id, and its column name is null or is the column name of a column
  record written in the same run with the same board id and the same status id. When the
  run commits, the column table it leaves holds a row with that board id, status id and
  column name.
\<close>

theorem written_column_names:
  assumes run: "main p cfg srv d = Some (res, tr, d')" and ev: "DbExecuteIssue r \<in> set tr"
  shows "iBoardId r = BOARD_ID cfg \<and>
         (iColumnName r = None \<or>
          (\<exists>c. DbExecuteColumn c \<in> set tr \<and> BoardId c = iBoardId r \<and>
               Some (StatusId c) = iStatusId r \<and> ColumnName c = iColumnName r)) \<and>
         (\<forall>n. res = Inr n \<longrightarrow>
            iColumnName r = None \<or>
            (\<exists>t\<in>set (JiraBoardColumns d'). BoardId t = iBoardId r \<and>
               Some (StatusId t) = iStatusId r \<and> ColumnName t = iColumnName r))"
proof (cases "main_check cfg")
  case (Inl e)
  with run ev show ?thesis by (auto simp: main_def)
next
  case chk: (Inr u)
  obtain rc t1 where gc: "get_board_columns cfg srv = (rc, t1)"
    by (cases "get_board_columns cfg srv")
  show ?thesis
  proof (cases rc)
    case (Inl e)
    with chk gc run have "tr = t1" by (auto simp: main_def)
    with ev get_board_columns_no_issue_event [OF gc, of r] show ?thesis by simp
  next
    case cols: (Inr cols)
    note gcr = get_board_columns_result [OF gc [unfolded cols]]
    show ?thesis
    proof (cases "get_board_issues cfg srv")
      case None
      with chk gc cols run show ?thesis by (simp add: main_def)
    next
      case (Some y)
      obtain ri t2 where y: "y = (ri, t2)" by (cases y)
      note no2 = get_board_issues_no_issue_event [OF Some [unfolded y] chk, of r]
      show ?thesis
      proof (cases ri)
        case (Inl e)
        with chk gc cols Some y run have "tr = t1 @ t2" by (auto simp: main_def)
        with ev gcr(1) [of r] no2 show ?thesis by simp
      next
        case issues: (Inr issues)
        obtain rw t3 dw where w: "main_write p cfg cols issues d = (rw, t3, dw)"
          by (cases "main_write p cfg cols issues d") auto
        with chk gc cols Some y issues run have tr: "tr = t1 @ t2 @ t3" and d': "d' = dw"
          and res: "\<And>n. res = Inr n \<Longrightarrow> rw = Inr ()"
          by (auto simp: main_def split: sum.splits)
        from ev tr gcr(1) [of r] no2 have e3: "DbExecuteIssue r \<in> set t3" by simp
        note mw = main_write_events [OF w e3]
        from mw(1) obtain it where it: "issue_params p cfg (status_to_column cols) it = Inr r"
          by blast
        have b: "iBoardId r = BOARD_ID cfg" by (rule issue_params_row(1) [OF it])
        show ?thesis
        proof (cases "iColumnName r")
          case None
          with b show ?thesis by simp
        next
          case (Some v)
          with issue_params_column [OF it] obtain xs c ys where
            c: "cols = xs @ c # ys" "\<forall>c'\<in>set ys. StatusId c' \<noteq> StatusId c"
               "Some (StatusId c) = iStatusId r" "ColumnName c = iColumnName r"
            by auto
          from c(1) have cin: "c \<in> set cols" by simp
          from gcr(2) [OF cin] b have bc: "BoardId c = iBoardId r" by simp
          from mw(2) [OF cin] tr have "DbExecuteColumn c \<in> set tr" by simp
          with bc c(3,4) have one: "\<exists>c. DbExecuteColumn c \<in> set tr \<and> BoardId c = iBoardId r \<and>
               Some (StatusId c) = iStatusId r \<and> ColumnName c = iColumnName r" by blast
          have two: "\<exists>t\<in>set (JiraBoardColumns d'). BoardId t = iBoardId r \<and>
               Some (StatusId t) = iStatusId r \<and> ColumnName t = iColumnName r" if "res = Inr n" for n
          proof -
            from mw(3) [OF res [OF that]] c(1) d'
            have "merge_all column_match column_update column_insert (xs @ c # ys)
                    (JiraBoardColumns d) = Inr (JiraBoardColumns d')" by simp
            from merge_all_column_last [OF this c(2)] bc c(3,4) show ?thesis by auto
          qed
          from b one two show ?thesis by blast
        qed
      qed
    qed
  qed
qed

theorem written_column_names_witness:
  "main sample_fromisoformat sample_config tiny_jira sample_db = Some (Inr 2, tiny_trace, tiny_db) \<and>
   DbExecuteIssue
     \<lparr> iBoardId = 2, IssueKey = Some ''PRJ-0'', Summary = Some ''Fix the build'',
       iStatusId = Some ''3'', iStatusName = Some ''Closed'', iColumnName = Some ''Done'',
       Assignee = None, DueDate = None, Created = Some sample_instant, Updated = None \<rparr>
     \<in> set tiny_trace \<and>
   (\<exists>c. DbExecuteColumn c \<in> set tiny_trace \<and> BoardId c = 2 \<and> Some (StatusId c) = Some ''3'' \<and>
        ColumnName c = Some ''Done'') \<and>
   (\<exists>t\<in>set (JiraBoardColumns tiny_db). BoardId t = 2 \<and> Some (StatusId t) = Some ''3'' \<and>
        ColumnName t = Some ''Done'')"
proof -
  let ?r = "\<lparr> iBoardId = 2, IssueKey = Some ''PRJ-0'', Summary = Some ''Fix the build'',
       iStatusId = Some ''3'', iStatusName = Some ''Closed'', iColumnName = Some ''Done'',
       Assignee = None, DueDate = None, Created = Some sample_instant, Updated = None \<rparr>"
  have ev: "DbExecuteIssue ?r \<in> set tiny_trace" by (simp add: tiny_trace_def)
  from written_column_names [OF tiny_run ev] tiny_run ev show ?thesis by simp
qed

section \<open>Missing settings\<close>

text \<open>
  The settings checked at the head of \<^verbatim>\<open>main\<close>: the first of them that is absent or
  empty ends the run with its name, before any event.
\<close>

lemma main_check_fails_first:
  "main_check cfg = Inl e \<Longrightarrow> main p cfg srv d = Some (Inl e, [], d)"
  by (simp add: main_def)

lemma main_check_missing:
  "main_check cfg =
     (if JIRA_BASE_URL cfg = [] then Inl (MissingConfiguration ''JIRA_BASE_URL'')
      else if JIRA_EMAIL cfg = None \<or> JIRA_EMAIL cfg = Some []
        then Inl (MissingConfiguration ''JIRA_EMAIL'')
      else if JIRA_API_TOKEN cfg = None \<or> JIRA_API_TOKEN cfg = Some []
        then Inl (MissingConfiguration ''JIRA_API_TOKEN'')
      else if SQL_SERVER cfg = None \<or> SQL_SERVER cfg = Some []
        then Inl (MissingConfiguration ''SQL_SERVER'')
      else Inr ())"
  by (simp add: main_check_def require_env_def)

text \<open>
  The settings that only \<^verbatim>\<open>sql_conn\<close> checks are reached after the fetches: whatever
  the server answers, a missing database name, user name or password is reported when
  the connection is about to be opened.
\<close>

lemma sql_conn_missing:
  assumes "main_check cfg = Inr u"
  shows "sql_conn cfg =
     (if SQL_DATABASE cfg = [] then (Inl (MissingConfiguration ''SQL_DATABASE''), [])
      else if SQL_AUTH cfg \<noteq> ''sql''
        then (Inr (), [DbConnect (''DRIVER={ODBC Driver 18 for SQL Server};''
                   @ ''SERVER='' @ fmt (SQL_SERVER cfg) @ '';''
                   @ ''DATABASE='' @ SQL_DATABASE cfg @ '';''
                   @ ''Encrypt=yes;'' @ ''TrustServerCertificate=yes;''
                   @ ''Trusted_Connection=yes;'')])
      else if SQL_USERNAME cfg = None \<or> SQL_USERNAME cfg = Some []
        then (Inl (MissingConfiguration ''SQL_USERNAME''), [])
      else if SQL_PASSWORD cfg = None \<or> SQL_PASSWORD cfg = Some []
        then (Inl (MissingConfiguration ''SQL_PASSWORD''), [])
      else (Inr (), [DbConnect (''DRIVER={ODBC Driver 18 for SQL Server};''
                   @ ''SERVER='' @ fmt (SQL_SERVER cfg) @ '';''
                   @ ''DATABASE='' @ SQL_DATABASE cfg @ '';''
                   @ ''Encrypt=yes;'' @ ''TrustServerCertificate=yes;''
                   @ ''UID='' @ fmt (SQL_USERNAME cfg)
                   @ '';PWD='' @ fmt (SQL_PASSWORD cfg) @ '';'')]))"
  using main_check_Inr [OF assms]
  by (simp add: sql_conn_def io_bind_def io_check_def require_env_def Let_def)

text \<open>
  C1. The claim fails on the code for the settings that \<^verbatim>\<open>main\<close> does not check
  itself. With SQL authentication selected and no \<^verbatim>\<open>SQL_USERNAME\<close>, against a server
  that answers every request, the run ends with the missing-configuration error naming
  \<^verbatim>\<open>SQL_USERNAME\<close> only after the board configuration and a page of issues have been
  requested; the tables are untouched.
\<close>

theorem missing_sql_username_after_requests:
  "SQL_AUTH sql_auth_config = ''sql'' \<and> SQL_USERNAME sql_auth_config = None \<and>
   main sample_fromisoformat sql_auth_config tiny_jira sample_db =
     Some (Inl (MissingConfiguration ''SQL_USERNAME''),
           [HttpGet ''https://jira.example/rest/agile/1.0/board/2/configuration'' [],
            HttpGet ''https://jira.example/rest/agile/1.0/board/2/issue''
              [(''startAt'', 0), (''maxResults'', 50)]],
           sample_db)"
  by code_simp

end
